theory Spec2Isabelle
  imports Complex_Main
begin

section \<open>Alert manager (src/src/alert-manager.js)\<close>

text \<open>
  An alert is the object built by \<open>addAlert\<close>. Prices are JavaScript numbers; the model
  takes them as exact reals, which order the finite numbers as \<open>>=\<close>, \<open><=\<close>, \<open><\<close>
  and \<open>>\<close> do (NaN is left out). Ids are numbers compared with \<open>===\<close>; \<open>condition\<close>
  stays a string, as the \<open>switch\<close> of \<open>checkAlerts\<close> compares it.
\<close>

record alert =
  alert_id :: int
  symbol :: string
  name :: string
  condition :: string
  price :: real
  enabled :: bool
  repeat :: bool
  triggered :: bool

text \<open>
  The manager owns the array \<open>this.alerts\<close>. Every call of \<open>saveAlerts\<close> serialises the
  array as it is at that moment; \<open>saves\<close> is the log of these snapshots, oldest first.
\<close>

record manager =
  alerts :: "alert list"
  saves :: "alert list list"

definition saveAlerts :: "manager \<Rightarrow> manager" where
  "saveAlerts m = m\<lparr>saves := saves m @ [alerts m]\<rparr>"

text \<open>\<open>Array.prototype.findIndex\<close>: the first index whose element satisfies the predicate;
  JavaScript's \<open>-1\<close> is \<open>None\<close>.\<close>

fun findIndex :: "('a \<Rightarrow> bool) \<Rightarrow> 'a list \<Rightarrow> nat option" where
  "findIndex p [] = None"
| "findIndex p (x # xs) =
     (if p x then Some 0 else (case findIndex p xs of None \<Rightarrow> None | Some k \<Rightarrow> Some (Suc k)))"

text \<open>\<open>splice(index, 1)\<close> on an index inside the array.\<close>

definition splice1 :: "nat \<Rightarrow> 'a list \<Rightarrow> 'a list" where
  "splice1 k xs = take k xs @ drop (Suc k) xs"

text \<open>\<open>renumberAlerts\<close>: \<open>alert.id = index + 1\<close> for every alert, then one save.\<close>

fun renumberFrom :: "nat \<Rightarrow> alert list \<Rightarrow> alert list" where
  "renumberFrom k [] = []"
| "renumberFrom k (a # as) = a\<lparr>alert_id := int k + 1\<rparr> # renumberFrom (Suc k) as"

definition renumberAlerts :: "manager \<Rightarrow> manager" where
  "renumberAlerts m = saveAlerts (m\<lparr>alerts := renumberFrom 0 (alerts m)\<rparr>)"

definition removeAlert :: "manager \<Rightarrow> int \<Rightarrow> bool \<times> manager" where
  "removeAlert m i =
     (case findIndex (\<lambda>a. alert_id a = i) (alerts m) of
        Some k \<Rightarrow> (True, renumberAlerts (m\<lparr>alerts := splice1 k (alerts m)\<rparr>))
      | None \<Rightarrow> (False, m))"

text \<open>
  The \<open>switch\<close> of \<open>checkAlerts\<close>: the value of the local \<open>triggered\<close> after it, for
  an alert that passed the two \<open>continue\<close> guards. A condition string outside the three
  cases leaves it false.
\<close>

definition switchTriggered :: "alert \<Rightarrow> real \<Rightarrow> real \<Rightarrow> bool" where
  "switchTriggered a currentPrice previousPrice =
     (if condition a = ''above'' then
        (if currentPrice \<ge> price a \<and> previousPrice < price a then True
         else if currentPrice \<ge> price a \<and> \<not> triggered a then True
         else False)
      else if condition a = ''below'' then
        (if currentPrice \<le> price a \<and> previousPrice > price a then True
         else if currentPrice \<le> price a \<and> \<not> triggered a then True
         else False)
      else if condition a = ''crosses'' then
        (if (currentPrice \<ge> price a \<and> previousPrice < price a) \<or>
            (currentPrice \<le> price a \<and> previousPrice > price a) then True
         else False)
      else False)"

text \<open>
  The \<open>for\<close> loop of \<open>checkAlerts\<close>. \<open>seen\<close> holds the alerts already visited (as the
  loop left them), the second list the alerts still to visit, \<open>out\<close> is
  \<open>triggeredAlerts\<close> and \<open>sv\<close> the save log. A fired alert gets \<open>triggered = true\<close>
  in place, is pushed to \<open>triggeredAlerts\<close>, and when it does not repeat the whole array
  is saved at once.
\<close>

fun checkLoop ::
  "string \<Rightarrow> real \<Rightarrow> real \<Rightarrow> alert list \<Rightarrow> alert list \<Rightarrow> alert list \<Rightarrow> alert list list \<Rightarrow>
   alert list \<times> alert list \<times> alert list list" where
  "checkLoop sy cur prev seen [] out sv = (seen, out, sv)"
| "checkLoop sy cur prev seen (a # rest) out sv =
     (if \<not> enabled a \<or> symbol a \<noteq> sy then checkLoop sy cur prev (seen @ [a]) rest out sv
      else if triggered a \<and> \<not> repeat a then checkLoop sy cur prev (seen @ [a]) rest out sv
      else if switchTriggered a cur prev then
        (let a' = a\<lparr>triggered := True\<rparr> in
         checkLoop sy cur prev (seen @ [a']) rest (out @ [a'])
           (if \<not> repeat a then sv @ [seen @ a' # rest] else sv))
      else checkLoop sy cur prev (seen @ [a]) rest out sv)"

definition checkAlerts :: "manager \<Rightarrow> string \<Rightarrow> real \<Rightarrow> real \<Rightarrow> alert list \<times> manager" where
  "checkAlerts m sy currentPrice previousPrice =
     (case checkLoop sy currentPrice previousPrice [] (alerts m) [] (saves m) of
        (al, out, sv) \<Rightarrow> (out, m\<lparr>alerts := al, saves := sv\<rparr>))"

section \<open>Feed client (src/unnamed/part_000)\<close>

subsection \<open>Strings and insertion-ordered maps\<close>

text \<open>
  Strings are lists of 8-bit characters. \<open>toUpperCase\<close> maps \<open>a\<close>..\<open>z\<close> to \<open>A\<close>..\<open>Z\<close> and
  leaves every other character alone, which is what JavaScript does on ASCII text;
  characters beyond ASCII are outside the model.
\<close>

definition toUpperChar :: "char \<Rightarrow> char" where
  "toUpperChar ch =
     (case map_of (zip ''abcdefghijklmnopqrstuvwxyz'' ''ABCDEFGHIJKLMNOPQRSTUVWXYZ'') ch of
        Some u \<Rightarrow> u
      | None \<Rightarrow> ch)"

definition toUpperCase :: "string \<Rightarrow> string" where
  "toUpperCase s = map toUpperChar s"

text \<open>
  A JavaScript \<open>Map\<close> (and the entries of an object literal with non-numeric keys) keeps
  its keys in insertion order: an association list with distinct keys. \<open>mapSet\<close> on a
  key that is present replaces the value where it stands; on a new key it appends.
\<close>

definition mapGet :: "('k \<times> 'v) list \<Rightarrow> 'k \<Rightarrow> 'v option" where
  "mapGet m k = map_of m k"

definition mapHas :: "('k \<times> 'v) list \<Rightarrow> 'k \<Rightarrow> bool" where
  "mapHas m k = (k \<in> set (map fst m))"

fun mapSet :: "'k \<Rightarrow> 'v \<Rightarrow> ('k \<times> 'v) list \<Rightarrow> ('k \<times> 'v) list" where
  "mapSet k v [] = [(k, v)]"
| "mapSet k v ((k', v') # m) = (if k' = k then (k, v) # m else (k', v') # mapSet k v m)"

definition mapDelete :: "'k \<Rightarrow> ('k \<times> 'v) list \<Rightarrow> ('k \<times> 'v) list" where
  "mapDelete k m = filter (\<lambda>e. fst e \<noteq> k) m"

subsection \<open>The alias table\<close>

text \<open>The object literal \<open>SYMBOL_ALIASES\<close>, its entries in the order they are written.\<close>

definition SYMBOL_ALIASES :: "(string \<times> string) list" where
  "SYMBOL_ALIASES =
     [(''BTC'', ''cryBTCUSD''), (''BTCUSD'', ''cryBTCUSD''), (''BITCOIN'', ''cryBTCUSD''),
      (''ETH'', ''cryETHUSD''), (''ETHUSD'', ''cryETHUSD''), (''ETHEREUM'', ''cryETHUSD''),
      (''XAU'', ''frxXAUUSD''), (''XAUUSD'', ''frxXAUUSD''), (''GOLD'', ''frxXAUUSD''),
      (''XAG'', ''frxXAGUSD''), (''XAGUSD'', ''frxXAGUSD''), (''SILVER'', ''frxXAGUSD''),
      (''XPT'', ''frxXPTUSD''), (''PLATINUM'', ''frxXPTUSD''),
      (''XPD'', ''frxXPDUSD''), (''PALLADIUM'', ''frxXPDUSD''),
      (''V10'', ''R_10''), (''V25'', ''R_25''), (''V50'', ''R_50''), (''V75'', ''R_75''),
      (''V100'', ''R_100''),
      (''VOL10'', ''R_10''), (''VOL25'', ''R_25''), (''VOL50'', ''R_50''), (''VOL75'', ''R_75''),
      (''VOL100'', ''R_100'')]"

subsection \<open>Client state\<close>

record priceData =
  current :: real
  previous :: real

text \<open>
  What the client sends on the socket: the subscribe request of \<open>subscribe\<close>, the
  \<open>forget\<close> of \<open>unsubscribe\<close> and the heartbeat of \<open>_startPing\<close>.
\<close>

datatype request = SubscribeReq string nat | ForgetReq string | PingReq

text \<open>The ready state of the socket object held in \<open>this.ws\<close>.\<close>

datatype ws_state = Connecting | Open | Closing | Closed

text \<open>
  The fields of \<open>DerivClient\<close>, the three \<open>Map\<close>s as insertion-ordered association lists
  (\<open>activeSymbols\<close> by its keys only: no claim reads the stored info). Callbacks are
  values of a type \<open>'cb\<close>. The last five fields make the effects visible:
  \<open>pingInterval\<close> says whether the interval timer of \<open>_startPing\<close> is running, \<open>sent\<close>
  lists the requests written to the socket, \<open>timers\<close> the delays (in milliseconds) of the
  reconnect attempts scheduled with \<open>setTimeout\<close>, \<open>logged\<close> the error lines, and
  \<open>exited\<close> is set by \<open>process.exit\<close>.
\<close>

record 'cb client =
  ws :: "ws_state option"
  subscriptions :: "(string \<times> string) list"
  callbacks :: "(string \<times> 'cb) list"
  prices :: "(string \<times> priceData) list"
  activeSymbols :: "string list"
  symbolAliases :: "(string \<times> string) list"
  connected_flag :: bool
  reconnectAttempts :: nat
  maxReconnectAttempts :: nat
  reqId :: nat
  pingInterval :: bool
  sent :: "request list"
  timers :: "nat list"
  logged :: "string list"
  exited :: bool

text \<open>The client as the constructor leaves it.\<close>

definition newClient :: "'cb client" where
  "newClient =
     \<lparr>ws = None, subscriptions = [], callbacks = [], prices = [], activeSymbols = [],
      symbolAliases = SYMBOL_ALIASES, connected_flag = False, reconnectAttempts = 0,
      maxReconnectAttempts = 10, reqId = 0, pingInterval = False, sent = [], timers = [],
      logged = [], exited = False\<rparr>"

subsection \<open>Symbol resolution\<close>

text \<open>
  \<open>this.symbolAliases[upper]\<close> in a condition: the entry counts when it exists and is a
  non-empty string.
\<close>

definition aliasEntry :: "(string \<times> string) list \<Rightarrow> string \<Rightarrow> string option" where
  "aliasEntry tbl k =
     (case map_of tbl k of
        None \<Rightarrow> None
      | Some v \<Rightarrow> (if v = [] then None else Some v))"

text \<open>The loop over \<open>this.activeSymbols.keys()\<close>: the first key equal to \<open>upper\<close> once
  uppercased.\<close>

fun matchActive :: "string \<Rightarrow> string list \<Rightarrow> string option" where
  "matchActive upper [] = None"
| "matchActive upper (s # ss) = (if toUpperCase s = upper then Some s else matchActive upper ss)"

definition resolveSymbol :: "'cb client \<Rightarrow> string \<Rightarrow> string" where
  "resolveSymbol c input =
     (let upper = toUpperCase input in
      case aliasEntry (symbolAliases c) upper of
        Some s \<Rightarrow> s
      | None \<Rightarrow>
          (case matchActive upper (activeSymbols c) of
             Some s \<Rightarrow> s
           | None \<Rightarrow> input))"

text \<open>The loop of \<open>getAlias\<close> over \<open>Object.entries\<close>; JavaScript's \<open>null\<close> is \<open>None\<close>.\<close>

fun aliasLoop :: "(string \<times> string) list \<Rightarrow> string \<Rightarrow> string option" where
  "aliasLoop [] derivSymbol = None"
| "aliasLoop ((alias, s) # es) derivSymbol =
     (if s = derivSymbol \<and> length alias \<le> 4 then Some alias else aliasLoop es derivSymbol)"

definition getAlias :: "'cb client \<Rightarrow> string \<Rightarrow> string option" where
  "getAlias c derivSymbol = aliasLoop (symbolAliases c) derivSymbol"

subsection \<open>Incoming messages and the price store\<close>

text \<open>
  A parsed incoming message, by the fields \<open>_handleMessage\<close> reads: a tick with its
  \<open>symbol\<close> (the empty string stands for a missing one) and its \<open>quote\<close> (\<open>None\<close> is
  \<open>undefined\<close>), a ping, an error with its text, or anything else.
\<close>

datatype message = TickMsg string "real option" | PingMsg | ErrorMsg string | OtherMsg

text \<open>
  \<open>_handleMessage\<close> returns the client and, when a callback is registered for the symbol,
  the call it makes: the callback with its three arguments
  \<open>(symbol, price, prevData.current)\<close>.
\<close>

definition handleMessage ::
  "'cb client \<Rightarrow> message \<Rightarrow> 'cb client \<times> ('cb \<times> string \<times> real \<times> real) option" where
  "handleMessage c data =
     (case data of
        TickMsg sy quote \<Rightarrow>
          (case quote of
             None \<Rightarrow> (c, None)
           | Some p \<Rightarrow>
               if sy = [] then (c, None)
               else
                 (let prevData =
                        (case mapGet (prices c) sy of
                           Some d \<Rightarrow> d
                         | None \<Rightarrow> \<lparr>current = p, previous = p\<rparr>);
                      c' = c\<lparr>prices :=
                             mapSet sy \<lparr>current = p, previous = current prevData\<rparr> (prices c)\<rparr>
                  in (c', (case mapGet (callbacks c') sy of
                             Some cb \<Rightarrow> Some (cb, sy, p, current prevData)
                           | None \<Rightarrow> None))))
      | PingMsg \<Rightarrow> (c, None)
      | ErrorMsg e \<Rightarrow> (c\<lparr>logged := logged c @ [''API Error: '' @ e]\<rparr>, None)
      | OtherMsg \<Rightarrow> (c, None))"

subsection \<open>Subscriptions\<close>

text \<open>
  What the feed answers to a subscribe request: an error payload, a subscription with
  its id, a message with the request's id but neither of the two, or nothing. The feed
  is a function from the symbol and the request id to the answer.
\<close>

datatype response = RespError string | RespSubscription string | RespOther | NoResponse

text \<open>How an awaited promise ends: resolved, rejected with a message, or never settled.\<close>

datatype outcome = Resolved | Rejected string | Pending

text \<open>
  \<open>subscribe\<close>. The answer to its request reaches two listeners, in the order they were
  registered: first the one of \<open>connect\<close>, which hands every message to
  \<open>_handleMessage\<close>, then the handler that \<open>subscribe\<close> itself attached. An error payload
  (which is neither a tick nor a ping) is therefore logged as \<open>API Error: ...\<close> before
  the promise is rejected with the same message. A tick carried along with a granted
  subscription is a tick message of its own, handled by \<open>handleMessage\<close>.
\<close>

definition subscribe ::
  "(string \<Rightarrow> nat \<Rightarrow> response) \<Rightarrow> 'cb client \<Rightarrow> string \<Rightarrow> 'cb \<Rightarrow> 'cb client \<times> outcome" where
  "subscribe feed c sy callback =
     (if mapHas (subscriptions c) sy then
        (c\<lparr>callbacks := mapSet sy callback (callbacks c)\<rparr>, Resolved)
      else
        (let rid = reqId c + 1;
             c1 = c\<lparr>reqId := rid, sent := sent c @ [SubscribeReq sy rid]\<rparr>
         in case feed sy rid of
              RespError e \<Rightarrow> (c1\<lparr>logged := logged c1 @ [''API Error: '' @ e]\<rparr>, Rejected e)
            | RespSubscription sid \<Rightarrow>
                (c1\<lparr>subscriptions := mapSet sy sid (subscriptions c1),
                    callbacks := mapSet sy callback (callbacks c1)\<rparr>, Resolved)
            | RespOther \<Rightarrow> (c1, Pending)
            | NoResponse \<Rightarrow> (c1, Pending)))"

text \<open>\<open>subscribe\<close> called again and again for one symbol, each call awaited.\<close>

fun subscribeEach ::
  "(string \<Rightarrow> nat \<Rightarrow> response) \<Rightarrow> 'cb client \<Rightarrow> string \<Rightarrow> 'cb list \<Rightarrow> 'cb client" where
  "subscribeEach feed c sy [] = c"
| "subscribeEach feed c sy (cb # cbs) = subscribeEach feed (fst (subscribe feed c sy cb)) sy cbs"

subsection \<open>Heartbeat, reconnection and shutdown\<close>

definition startPing :: "'cb client \<Rightarrow> 'cb client" where
  "startPing c = c\<lparr>pingInterval := True\<rparr>"

definition stopPing :: "'cb client \<Rightarrow> 'cb client" where
  "stopPing c = c\<lparr>pingInterval := False\<rparr>"

text \<open>
  \<open>_attemptReconnect\<close> up to its \<open>setTimeout\<close>: at the limit it logs and exits the
  process; below it, it increments the counter, computes the delay from the incremented
  counter and schedules the timer. \<open>Math.pow(2, n)\<close> is exact on the numbers the counter
  takes, and beyond them \<open>Math.min\<close> answers 30000 as the model does.
\<close>

definition attemptReconnect :: "'cb client \<Rightarrow> 'cb client" where
  "attemptReconnect c =
     (if reconnectAttempts c \<ge> maxReconnectAttempts c then
        c\<lparr>logged := logged c @ [''Max reconnection attempts reached''], exited := True\<rparr>
      else
        (let n = reconnectAttempts c + 1;
             delay = min (1000 * 2 ^ n) 30000
         in c\<lparr>reconnectAttempts := n, timers := timers c @ [delay]\<rparr>))"

text \<open>The handlers that \<open>connect\<close> registers for \<open>open\<close> and \<open>close\<close>.\<close>

definition onOpen :: "'cb client \<Rightarrow> 'cb client" where
  "onOpen c = startPing (c\<lparr>connected_flag := True, reconnectAttempts := 0\<rparr>)"

definition onClose :: "'cb client \<Rightarrow> 'cb client" where
  "onClose c = attemptReconnect (stopPing (c\<lparr>connected_flag := False\<rparr>))"

text \<open>
  The socket's side of a close. \<open>ws.close()\<close> starts closing a socket that is not
  closed yet. The socket then emits \<open>close\<close>, once, whoever asked for the close, and the
  handler registered by \<open>connect\<close> runs: \<open>closeEvent\<close> is that delivery.
\<close>

definition wsClose :: "ws_state \<Rightarrow> ws_state" where
  "wsClose w = (case w of Closed \<Rightarrow> Closed | _ \<Rightarrow> Closing)"

definition closeEvent :: "'cb client \<Rightarrow> 'cb client" where
  "closeEvent c =
     (case ws c of
        None \<Rightarrow> c
      | Some w \<Rightarrow> (if w = Closed then c else onClose (c\<lparr>ws := Some Closed\<rparr>)))"

definition disconnect :: "'cb client \<Rightarrow> 'cb client" where
  "disconnect c =
     (let c1 = stopPing c
      in case ws c1 of
           None \<Rightarrow> c1
         | Some w \<Rightarrow> c1\<lparr>ws := Some (wsClose w)\<rparr>)"

text \<open>
  The replay inside the timer of \<open>_attemptReconnect\<close>, after \<open>connect\<close> has resolved: for
  every entry of \<open>this.callbacks\<close>, delete the stale subscription and await
  \<open>subscribe\<close>. The loop sits in one \<open>try\<close>: a rejected subscribe leaves the loop for the
  \<open>catch\<close>, which logs; a subscribe that never settles stops it there. \<open>subscribe\<close> only
  ever sets the key being visited, so the entries visited are the ones the map had when
  the loop began.
\<close>

fun resubscribeLoop ::
  "(string \<Rightarrow> nat \<Rightarrow> response) \<Rightarrow> 'cb client \<Rightarrow> (string \<times> 'cb) list \<Rightarrow> 'cb client \<times> outcome" where
  "resubscribeLoop feed c [] = (c, Resolved)"
| "resubscribeLoop feed c ((sy, callback) # rest) =
     (case subscribe feed (c\<lparr>subscriptions := mapDelete sy (subscriptions c)\<rparr>) sy callback of
        (c', Resolved) \<Rightarrow> resubscribeLoop feed c' rest
      | (c', Rejected e) \<Rightarrow> (c', Rejected e)
      | (c', Pending) \<Rightarrow> (c', Pending))"

definition resubscribe :: "(string \<Rightarrow> nat \<Rightarrow> response) \<Rightarrow> 'cb client \<Rightarrow> 'cb client \<times> outcome" where
  "resubscribe feed c =
     (case resubscribeLoop feed c (callbacks c) of
        (c', Rejected e) \<Rightarrow> (c'\<lparr>logged := logged c' @ [''Reconnection failed: '' @ e]\<rparr>, Rejected e)
      | (c', Resolved) \<Rightarrow> (c', Resolved)
      | (c', Pending) \<Rightarrow> (c', Pending))"

section \<open>From a tick to the alerts (src/src/index.js)\<close>

text \<open>
  \<open>handlePriceTick\<close> is the callback registered with \<open>subscribe\<close>: it passes its three
  arguments to \<open>checkAlerts\<close> and notifies for every alert returned. \<open>feedTick\<close> is one
  tick message for a symbol going through \<open>_handleMessage\<close> and that callback;
  \<open>runTicks\<close> feeds a sequence of prices and lists what each tick fired.
\<close>

definition handlePriceTick :: "manager \<Rightarrow> string \<Rightarrow> real \<Rightarrow> real \<Rightarrow> alert list \<times> manager" where
  "handlePriceTick m sy currentPrice previousPrice = checkAlerts m sy currentPrice previousPrice"

definition feedTick ::
  "'cb client \<times> manager \<Rightarrow> string \<Rightarrow> real \<Rightarrow> ('cb client \<times> manager) \<times> alert list" where
  "feedTick st sy p =
     (case handleMessage (fst st) (TickMsg sy (Some p)) of
        (c', None) \<Rightarrow> ((c', snd st), [])
      | (c', Some (cb, s, cur, prev)) \<Rightarrow>
          (case handlePriceTick (snd st) s cur prev of
             (fired, m') \<Rightarrow> ((c', m'), fired)))"

fun runTicks :: "'cb client \<times> manager \<Rightarrow> string \<Rightarrow> real list \<Rightarrow> alert list list" where
  "runTicks st sy [] = []"
| "runTicks st sy (p # ps) =
     (case feedTick st sy p of (st', fired) \<Rightarrow> fired # runTicks st' sy ps)"

section \<open>Describing an evaluation\<close>

text \<open>
  Three notions used to state what \<open>checkAlerts\<close> does. \<open>firesOn\<close> gathers the guards
  of one loop iteration: the alert is enabled, is on the tick's symbol, is not a spent
  one-shot, and its condition holds. \<open>afterCheck\<close> is the alert as the iteration leaves
  it. \<open>timesFired i fired\<close> counts the alerts with id \<open>i\<close> in a returned list.
\<close>

definition firesOn :: "string \<Rightarrow> real \<Rightarrow> real \<Rightarrow> alert \<Rightarrow> bool" where
  "firesOn sy cur prev a =
     (enabled a \<and> symbol a = sy \<and> \<not> (triggered a \<and> \<not> repeat a) \<and> switchTriggered a cur prev)"

definition afterCheck :: "string \<Rightarrow> real \<Rightarrow> real \<Rightarrow> alert \<Rightarrow> alert" where
  "afterCheck sy cur prev a = (if firesOn sy cur prev a then a\<lparr>triggered := True\<rparr> else a)"

definition timesFired :: "int \<Rightarrow> alert list \<Rightarrow> nat" where
  "timesFired i fired = length (filter (\<lambda>r. alert_id r = i) fired)"

section \<open>Describing a replay\<close>

text \<open>
  Notions used to state what a replay does. \<open>subscribeReqs ss r\<close> is the run of
  subscribe requests for the symbols \<open>ss\<close>, in order, with the request ids that follow
  \<open>r\<close>. \<open>grantsAll feed ss r\<close> says that the feed answers each of these requests with a
  subscription.
\<close>

fun subscribeReqs :: "string list \<Rightarrow> nat \<Rightarrow> request list" where
  "subscribeReqs [] r = []"
| "subscribeReqs (s # ss) r = SubscribeReq s (r + 1) # subscribeReqs ss (r + 1)"

fun grantsAll :: "(string \<Rightarrow> nat \<Rightarrow> response) \<Rightarrow> string list \<Rightarrow> nat \<Rightarrow> bool" where
  "grantsAll feed [] r = True"
| "grantsAll feed (s # ss) r =
     ((case feed s (r + 1) of RespSubscription sid \<Rightarrow> True | _ \<Rightarrow> False) \<and>
      grantsAll feed ss (r + 1))"

text \<open>
  \<open>grantedHandles feed ss r\<close> pairs each of these symbols with the subscription id the
  feed grants to its request (a symbol whose request is not granted is left out).
\<close>

fun grantedHandles ::
  "(string \<Rightarrow> nat \<Rightarrow> response) \<Rightarrow> string list \<Rightarrow> nat \<Rightarrow> (string \<times> string) list" where
  "grantedHandles feed [] r = []"
| "grantedHandles feed (s # ss) r =
     (case feed s (r + 1) of RespSubscription sid \<Rightarrow> [(s, sid)] | _ \<Rightarrow> []) @
     grantedHandles feed ss (r + 1)"

section \<open>Example values\<close>

text \<open>
  Two feeds to run the model on: one grants every subscribe request, the other answers
  the requests for one symbol with an error payload and grants the rest. Then a rule on
  \<open>R_10\<close> with target 100 (its condition left open), the manager holding that one rule,
  and a client that has subscribed to \<open>R_10\<close> and seen no tick yet.
\<close>

definition feedAccepts :: "string \<Rightarrow> nat \<Rightarrow> response" where
  "feedAccepts sy rid = RespSubscription (''sub-'' @ sy)"

definition feedRejects :: "string \<Rightarrow> string \<Rightarrow> nat \<Rightarrow> response" where
  "feedRejects bad sy rid =
     (if sy = bad then RespError ''MarketIsClosed'' else RespSubscription (''sub-'' @ sy))"

definition watchR10 :: "string \<Rightarrow> alert" where
  "watchR10 cond =
     \<lparr>alert_id = 1, symbol = ''R_10'', name = ''Volatility 10 Index'', condition = cond,
      price = 100, enabled = True, repeat = False, triggered = False\<rparr>"

definition oneAlert :: "string \<Rightarrow> manager" where
  "oneAlert cond = \<lparr>alerts = [watchR10 cond], saves = []\<rparr>"

definition listening :: "unit client" where
  "listening =
     newClient\<lparr>subscriptions := [(''R_10'', ''sub-R_10'')], callbacks := [(''R_10'', ())]\<rparr>"

section \<open>Removing an alert\<close>

lemma findIndex_None_iff: "findIndex p xs = None \<longleftrightarrow> (\<forall>x \<in> set xs. \<not> p x)"
  by (induction xs) (auto split: option.splits)

text \<open>
  Claim C10. \<open>removeAlert(id)\<close> returns true exactly when some rule has that id. When no
  rule has it, the call returns false and the manager is the one it was: the same rules
  with the same ids, and no snapshot added to the save log.
\<close>

theorem removeAlert_result:
  "fst (removeAlert m i) = (\<exists>a \<in> set (alerts m). alert_id a = i) \<and>
   ((\<forall>a \<in> set (alerts m). alert_id a \<noteq> i) \<longrightarrow>
      removeAlert m i = (False, m) \<and>
      alerts (snd (removeAlert m i)) = alerts m \<and>
      saves (snd (removeAlert m i)) = saves m)"
proof (cases "findIndex (\<lambda>a. alert_id a = i) (alerts m)")
  case None
  then have "\<forall>a \<in> set (alerts m). alert_id a \<noteq> i"
    by (simp add: findIndex_None_iff)
  with None show ?thesis
    by (auto simp: removeAlert_def)
next
  case (Some k)
  then have "\<not> (\<forall>a \<in> set (alerts m). alert_id a \<noteq> i)"
    using findIndex_None_iff [of "\<lambda>a. alert_id a = i" "alerts m"] by auto
  with Some show ?thesis
    by (auto simp: removeAlert_def)
qed

theorem removeAlert_result_witness:
  "7 \<notin> set (map alert_id (alerts (oneAlert ''above''))) \<and>
   removeAlert (oneAlert ''above'') 7 = (False, oneAlert ''above'') \<and>
   1 \<in> set (map alert_id (alerts (oneAlert ''above''))) \<and>
   fst (removeAlert (oneAlert ''above'') 1) = True"
proof -
  have absent: "7 \<notin> set (map alert_id (alerts (oneAlert ''above'')))"
    and present: "1 \<in> set (map alert_id (alerts (oneAlert ''above'')))"
    by (simp_all add: oneAlert_def watchR10_def)
  from absent have "removeAlert (oneAlert ''above'') 7 = (False, oneAlert ''above'')"
    using removeAlert_result [of "oneAlert ''above''" 7] by auto
  moreover from present have "fst (removeAlert (oneAlert ''above'') 1) = True"
    using removeAlert_result [of "oneAlert ''above''" 1] by auto
  ultimately show ?thesis using absent present by simp
qed

section \<open>The price store\<close>

lemma mapGet_mapSet_same: "mapGet (mapSet k v m) k = Some v"
  by (induction m) (auto simp: mapGet_def)

lemma mapGet_mapSet_other: "k' \<noteq> k \<Longrightarrow> mapGet (mapSet k v m) k' = mapGet m k'"
  by (induction m) (auto simp: mapGet_def)

text \<open>
  Claim C5. A tick for a symbol (with a symbol and a quote) stores a sample for it: when
  the symbol had no sample, \<open>previous\<close> and \<open>current\<close> are both the tick's price; when it
  had one, \<open>previous\<close> is the old \<open>current\<close> and \<open>current\<close> the tick's price, and a
  registered callback is called with the old \<open>current\<close> as its previous price. The
  samples of the other symbols stay as they were.
\<close>

theorem handleMessage_price_sample:
  assumes "sy \<noteq> []"
  shows
   "(mapGet (prices c) sy = None \<longrightarrow>
       mapGet (prices (fst (handleMessage c (TickMsg sy (Some p))))) sy =
         Some \<lparr>current = p, previous = p\<rparr>) \<and>
    (\<forall>d. mapGet (prices c) sy = Some d \<longrightarrow>
       mapGet (prices (fst (handleMessage c (TickMsg sy (Some p))))) sy =
         Some \<lparr>current = p, previous = current d\<rparr> \<and>
       (\<forall>cb. mapGet (callbacks c) sy = Some cb \<longrightarrow>
          snd (handleMessage c (TickMsg sy (Some p))) = Some (cb, sy, p, current d))) \<and>
    (\<forall>other. other \<noteq> sy \<longrightarrow>
       mapGet (prices (fst (handleMessage c (TickMsg sy (Some p))))) other =
         mapGet (prices c) other)"
  using assms
  by (auto simp: handleMessage_def Let_def mapGet_mapSet_same mapGet_mapSet_other)

theorem handleMessage_price_sample_witness:
  "''R_10'' \<noteq> [] \<and>
   mapGet (prices (newClient\<lparr>callbacks := [(''R_10'', ())]\<rparr>)) ''R_10'' = None \<and>
   mapGet (prices (fst (handleMessage (newClient\<lparr>callbacks := [(''R_10'', ())]\<rparr>)
       (TickMsg ''R_10'' (Some 5))))) ''R_10'' = Some \<lparr>current = 5, previous = 5\<rparr> \<and>
   mapGet (prices (newClient\<lparr>callbacks := [(''R_10'', ())],
       prices := [(''R_10'', \<lparr>current = 5, previous = 5\<rparr>)]\<rparr>)) ''R_10'' =
     Some \<lparr>current = 5, previous = 5\<rparr> \<and>
   mapGet (callbacks (newClient\<lparr>callbacks := [(''R_10'', ())],
       prices := [(''R_10'', \<lparr>current = 5, previous = 5\<rparr>)]\<rparr>)) ''R_10'' = Some () \<and>
   mapGet (prices (fst (handleMessage (newClient\<lparr>callbacks := [(''R_10'', ())],
       prices := [(''R_10'', \<lparr>current = 5, previous = 5\<rparr>)]\<rparr>)
       (TickMsg ''R_10'' (Some 7))))) ''R_10'' = Some \<lparr>current = 7, previous = 5\<rparr> \<and>
   snd (handleMessage (newClient\<lparr>callbacks := [(''R_10'', ())],
       prices := [(''R_10'', \<lparr>current = 5, previous = 5\<rparr>)]\<rparr>)
       (TickMsg ''R_10'' (Some 7))) = Some ((), ''R_10'', 7, 5)"
proof -
  have ne: "''R_10'' \<noteq> []" by simp
  show ?thesis
    using handleMessage_price_sample [OF ne, of "newClient\<lparr>callbacks := [(''R_10'', ())]\<rparr>" 5]
      handleMessage_price_sample [OF ne, of "newClient\<lparr>callbacks := [(''R_10'', ())],
        prices := [(''R_10'', \<lparr>current = 5, previous = 5\<rparr>)]\<rparr>" 7]
    by (simp add: newClient_def mapGet_def)
qed

section \<open>Subscribing twice\<close>

lemma repeated_subscribe_silent:
  "mapHas (subscriptions c) sy \<Longrightarrow>
   sent (subscribeEach feed c sy cbs) = sent c \<and>
   subscriptions (subscribeEach feed c sy cbs) = subscriptions c"
  by (induction cbs arbitrary: c) (simp_all add: subscribe_def)

text \<open>
  Claim C8. When the symbol is already in the subscription registry, \<open>subscribe\<close>
  resolves at once: the stored callback is replaced by the new one, nothing is written to
  the socket, no request id is used, and the registry of subscriptions is the one it was.
  However many times it is called again for that symbol, no further request is sent, so
  the symbol keeps its single upstream subscription.
\<close>

theorem subscribe_again:
  assumes "mapHas (subscriptions c) sy"
  shows "subscribe feed c sy cb = (c\<lparr>callbacks := mapSet sy cb (callbacks c)\<rparr>, Resolved) \<and>
         sent (fst (subscribe feed c sy cb)) = sent c \<and>
         reqId (fst (subscribe feed c sy cb)) = reqId c \<and>
         subscriptions (fst (subscribe feed c sy cb)) = subscriptions c \<and>
         mapGet (callbacks (fst (subscribe feed c sy cb))) sy = Some cb \<and>
         sent (subscribeEach feed c sy cbs) = sent c"
  using assms repeated_subscribe_silent [OF assms, of feed cbs]
  by (simp add: subscribe_def mapGet_mapSet_same)

theorem subscribe_again_witness:
  "mapHas (subscriptions listening) ''R_10'' \<and>
   subscribe feedAccepts listening ''R_10'' () =
     (listening\<lparr>callbacks := mapSet ''R_10'' () (callbacks listening)\<rparr>, Resolved) \<and>
   sent (fst (subscribe feedAccepts listening ''R_10'' ())) = [] \<and>
   sent (subscribeEach feedAccepts listening ''R_10'' [(), (), ()]) = []"
proof -
  have h: "mapHas (subscriptions listening) ''R_10''"
    by (simp add: mapHas_def listening_def)
  have s: "sent listening = []"
    by (simp add: listening_def newClient_def)
  note t = subscribe_again [OF h, of feedAccepts "()" "[(), (), ()]"]
  from t have a: "subscribe feedAccepts listening ''R_10'' () =
      (listening\<lparr>callbacks := mapSet ''R_10'' () (callbacks listening)\<rparr>, Resolved)"
    by blast
  from t have "sent (fst (subscribe feedAccepts listening ''R_10'' ())) = sent listening"
    by blast
  then have b: "sent (fst (subscribe feedAccepts listening ''R_10'' ())) = []"
    by (simp only: s)
  from t have "sent (subscribeEach feedAccepts listening ''R_10'' [(), (), ()]) = sent listening"
    by blast
  then have c: "sent (subscribeEach feedAccepts listening ''R_10'' [(), (), ()]) = []"
    by (simp only: s)
  from h a b c show ?thesis by (intro conjI)
qed

section \<open>Reconnection delay\<close>

text \<open>
  Claim C4, as the code has it. On a close below the retry limit the counter is
  incremented first and the delay is computed from the incremented counter:
  \<open>min(1000 * 2^(attempt + 1), 30000)\<close> milliseconds, \<open>attempt\<close> being the counter before
  the close. The delay never exceeds 30 seconds, and the first reconnect attempt (counter
  at 0) is scheduled after 2 seconds.
\<close>

theorem reconnect_delay:
  assumes "reconnectAttempts c < maxReconnectAttempts c"
  shows "timers (onClose c) = timers c @ [min (1000 * 2 ^ (reconnectAttempts c + 1)) 30000] \<and>
         reconnectAttempts (onClose c) = reconnectAttempts c + 1 \<and>
         last (timers (onClose c)) \<le> 30000 \<and>
         (reconnectAttempts c = 0 \<longrightarrow> last (timers (onClose c)) = 2000)"
  using assms by (simp add: onClose_def attemptReconnect_def stopPing_def Let_def)

theorem reconnect_delay_witness:
  "reconnectAttempts (onOpen (newClient :: unit client)) <
     maxReconnectAttempts (onOpen (newClient :: unit client)) \<and>
   timers (onClose (onOpen (newClient :: unit client))) = [2000] \<and>
   reconnectAttempts (onClose (onOpen (newClient :: unit client))) = 1"
proof -
  have h: "reconnectAttempts (onOpen (newClient :: unit client)) <
             maxReconnectAttempts (onOpen (newClient :: unit client))"
    by (simp add: onOpen_def startPing_def newClient_def)
  show ?thesis
    using h reconnect_delay [OF h]
    by (simp add: onOpen_def startPing_def newClient_def)
qed

text \<open>
  Claim C4 as written has the counter incremented after the delay is computed, and so
  a first delay of 1 second. A client that has just connected and loses its socket
  schedules its first reconnect after 2000 ms.
\<close>

theorem reconnect_delay_counterexample:
  "reconnectAttempts (onOpen (newClient :: unit client)) = 0 \<and>
   timers (onClose (onOpen (newClient :: unit client))) = [2000] \<and>
   timers (onClose (onOpen (newClient :: unit client))) \<noteq> [min (1000 * 2 ^ 0) 30000]"
  by (simp add: onClose_def onOpen_def newClient_def attemptReconnect_def stopPing_def startPing_def Let_def)

section \<open>Operator shutdown\<close>

text \<open>
  Claim C2, as the code has it. \<open>disconnect()\<close> stops the heartbeat and asks the socket
  to close; by itself it schedules no reconnect, leaves the retry counter alone and does
  not exit. The client keeps no mark that the close was asked for: when the closing
  socket emits \<open>close\<close>, the handler of \<open>connect\<close> runs \<open>_attemptReconnect\<close> as for any
  close, and below the retry limit a reconnect is scheduled.
\<close>

theorem disconnect_then_close:
  "pingInterval (disconnect c) = False \<and>
   timers (disconnect c) = timers c \<and>
   reconnectAttempts (disconnect c) = reconnectAttempts c \<and>
   exited (disconnect c) = exited c \<and>
   (ws c = Some Open \<longrightarrow> ws (disconnect c) = Some Closing) \<and>
   (ws c = Some Open \<and> reconnectAttempts c < maxReconnectAttempts c \<longrightarrow>
      timers (closeEvent (disconnect c)) =
        timers c @ [min (1000 * 2 ^ (reconnectAttempts c + 1)) 30000])"
  by (auto simp: disconnect_def closeEvent_def onClose_def attemptReconnect_def stopPing_def
        wsClose_def Let_def split: option.splits)

theorem disconnect_then_close_witness:
  "ws (onOpen (newClient\<lparr>ws := Some Open\<rparr>) :: unit client) = Some Open \<and>
   reconnectAttempts (onOpen (newClient\<lparr>ws := Some Open\<rparr>) :: unit client) <
     maxReconnectAttempts (onOpen (newClient\<lparr>ws := Some Open\<rparr>) :: unit client) \<and>
   pingInterval (disconnect (onOpen (newClient\<lparr>ws := Some Open\<rparr>) :: unit client)) = False \<and>
   ws (disconnect (onOpen (newClient\<lparr>ws := Some Open\<rparr>) :: unit client)) = Some Closing \<and>
   timers (disconnect (onOpen (newClient\<lparr>ws := Some Open\<rparr>) :: unit client)) = [] \<and>
   length (timers (closeEvent (disconnect (onOpen (newClient\<lparr>ws := Some Open\<rparr>) :: unit client)))) = 1"
  using disconnect_then_close [of "onOpen (newClient\<lparr>ws := Some Open\<rparr>) :: unit client"]
  by (simp add: onOpen_def startPing_def newClient_def)

text \<open>
  Claim C2 as written: after \<open>disconnect()\<close> no reconnect is ever scheduled. A connected
  client with no timer pending is disconnected by the operator; once the socket's
  \<open>close\<close> event is delivered, a reconnect is pending, 2000 ms away.
\<close>

theorem disconnect_counterexample:
  "timers (onOpen (newClient\<lparr>ws := Some Open\<rparr>) :: unit client) = [] \<and>
   timers (closeEvent (disconnect (onOpen (newClient\<lparr>ws := Some Open\<rparr>) :: unit client))) = [2000]"
  by (simp add: disconnect_def closeEvent_def onClose_def onOpen_def newClient_def
        attemptReconnect_def stopPing_def startPing_def wsClose_def Let_def)

section \<open>Symbol resolution\<close>

lemma matchActive_None_iff:
  "matchActive upper ss = None \<longleftrightarrow> (\<forall>a \<in> set ss. toUpperCase a \<noteq> upper)"
  by (induction ss) auto

lemma matchActive_Some:
  "matchActive upper ss = Some s \<Longrightarrow> s \<in> set ss \<and> toUpperCase s = upper"
  by (induction ss) (auto split: if_splits)

lemma aliasEntry_Some:
  "\<forall>e \<in> set tbl. snd e \<noteq> [] \<Longrightarrow> aliasEntry tbl k = map_of tbl k"
  by (auto simp: aliasEntry_def split: option.splits dest!: map_of_SomeD)

text \<open>
  Claim C7, as the code has it. \<open>resolveSymbol\<close> uppercases its input. If the alias table
  has an entry for the uppercased input, the mapped symbol is returned. Otherwise, if some
  known symbol equals the input up to case, such a symbol is returned in its own casing.
  Otherwise the input is returned as it was given, not uppercased. (The table maps to
  non-empty symbols, as \<open>SYMBOL_ALIASES\<close> does.)
\<close>

theorem resolveSymbol_cases:
  assumes "\<forall>e \<in> set (symbolAliases c). snd e \<noteq> []"
  shows
   "(\<forall>s. map_of (symbolAliases c) (toUpperCase input) = Some s \<longrightarrow> resolveSymbol c input = s) \<and>
    (map_of (symbolAliases c) (toUpperCase input) = None \<and>
       (\<exists>a \<in> set (activeSymbols c). toUpperCase a = toUpperCase input) \<longrightarrow>
         resolveSymbol c input \<in> set (activeSymbols c) \<and>
         toUpperCase (resolveSymbol c input) = toUpperCase input) \<and>
    (map_of (symbolAliases c) (toUpperCase input) = None \<and>
       (\<forall>a \<in> set (activeSymbols c). toUpperCase a \<noteq> toUpperCase input) \<longrightarrow>
         resolveSymbol c input = input)"
proof -
  have entry: "aliasEntry (symbolAliases c) (toUpperCase input) =
                 map_of (symbolAliases c) (toUpperCase input)"
    using assms by (rule aliasEntry_Some)
  have by_alias: "map_of (symbolAliases c) (toUpperCase input) = Some s \<Longrightarrow> resolveSymbol c input = s"
    for s
    by (simp add: resolveSymbol_def entry)
  have by_active: "resolveSymbol c input \<in> set (activeSymbols c) \<and>
                toUpperCase (resolveSymbol c input) = toUpperCase input"
    if none: "map_of (symbolAliases c) (toUpperCase input) = None"
      and ex: "\<exists>a \<in> set (activeSymbols c). toUpperCase a = toUpperCase input"
  proof -
    from ex obtain s where s: "matchActive (toUpperCase input) (activeSymbols c) = Some s"
      using matchActive_None_iff [of "toUpperCase input" "activeSymbols c"] by fastforce
    then have "resolveSymbol c input = s"
      by (simp add: resolveSymbol_def entry none)
    with matchActive_Some [OF s] show ?thesis by simp
  qed
  have neither: "resolveSymbol c input = input"
    if none: "map_of (symbolAliases c) (toUpperCase input) = None"
      and no: "\<forall>a \<in> set (activeSymbols c). toUpperCase a \<noteq> toUpperCase input"
  proof -
    from no have "matchActive (toUpperCase input) (activeSymbols c) = None"
      by (simp add: matchActive_None_iff)
    then show ?thesis
      by (simp add: resolveSymbol_def entry none)
  qed
  from by_alias by_active neither show ?thesis by blast
qed

lemma aliases_nonempty: "\<forall>e \<in> set SYMBOL_ALIASES. snd e \<noteq> []"
  by (simp add: SYMBOL_ALIASES_def)

theorem resolveSymbol_cases_witness:
  "[] \<notin> set (map snd
      (symbolAliases (newClient\<lparr>activeSymbols := [''R_10'', ''cryBTCUSD'']\<rparr> :: unit client))) \<and>
   resolveSymbol (newClient\<lparr>activeSymbols := [''R_10'', ''cryBTCUSD'']\<rparr> :: unit client) ''btc'' =
     ''cryBTCUSD'' \<and>
   resolveSymbol (newClient\<lparr>activeSymbols := [''R_10'', ''cryBTCUSD'']\<rparr> :: unit client) ''r_10'' =
     ''R_10'' \<and>
   resolveSymbol (newClient\<lparr>activeSymbols := [''R_10'', ''cryBTCUSD'']\<rparr> :: unit client) ''abc'' =
     ''abc''"
proof -
  let ?c = "newClient\<lparr>activeSymbols := [''R_10'', ''cryBTCUSD'']\<rparr> :: unit client"
  have ne: "\<forall>e \<in> set (symbolAliases ?c). snd e \<noteq> []"
    by (simp add: newClient_def aliases_nonempty)
  have up: "toUpperCase ''btc'' = ''BTC''" "toUpperCase ''r_10'' = ''R_10''"
    "toUpperCase ''abc'' = ''ABC''" "toUpperCase ''R_10'' = ''R_10''"
    "toUpperCase ''cryBTCUSD'' = ''CRYBTCUSD''"
    by (simp_all add: toUpperCase_def toUpperChar_def)
  have a: "resolveSymbol ?c ''btc'' = ''cryBTCUSD''"
    using resolveSymbol_cases [OF ne, of "''btc''"]
    by (simp add: up newClient_def SYMBOL_ALIASES_def)
  have "resolveSymbol ?c ''r_10'' \<in> set (activeSymbols ?c) \<and>
        toUpperCase (resolveSymbol ?c ''r_10'') = toUpperCase ''r_10''"
    using resolveSymbol_cases [OF ne, of "''r_10''"]
    by (simp add: up newClient_def SYMBOL_ALIASES_def)
  then have b': "resolveSymbol ?c ''r_10'' = ''R_10''"
    by (auto simp: newClient_def up)
  have c: "resolveSymbol ?c ''abc'' = ''abc''"
    using resolveSymbol_cases [OF ne, of "''abc''"]
    by (simp add: up newClient_def SYMBOL_ALIASES_def)
  from ne have "[] \<notin> set (map snd (symbolAliases ?c))" by auto
  with a b' c show ?thesis by blast
qed

text \<open>
  Claim C7 as written returns the uppercased input when nothing matches. For \<open>abc\<close>,
  which is no alias and matches no known symbol, the code returns \<open>abc\<close>, not \<open>ABC\<close>.
\<close>

theorem resolveSymbol_counterexample:
  "aliasEntry (symbolAliases (newClient :: unit client)) (toUpperCase ''abc'') = None \<and>
   matchActive (toUpperCase ''abc'') (activeSymbols (newClient :: unit client)) = None \<and>
   resolveSymbol (newClient :: unit client) ''abc'' = ''abc'' \<and>
   resolveSymbol (newClient :: unit client) ''abc'' \<noteq> toUpperCase ''abc''"
  by (simp add: resolveSymbol_def aliasEntry_def newClient_def SYMBOL_ALIASES_def
        toUpperCase_def toUpperChar_def)

lemma aliasLoop_Some:
  "aliasLoop tbl s = Some a \<Longrightarrow> (a, s) \<in> set tbl \<and> length a \<le> 4"
  by (induction tbl s rule: aliasLoop.induct) (auto split: if_splits)

lemma alias_keys_resolve:
  "\<forall>e \<in> set SYMBOL_ALIASES. toUpperCase (fst e) = fst e \<and> map_of SYMBOL_ALIASES (fst e) = Some (snd e)"
  by (simp add: SYMBOL_ALIASES_def toUpperCase_def toUpperChar_def)

text \<open>
  Claim C9. With the alias table of the source: when \<open>getAlias\<close> returns an alias for a
  symbol, the alias has at most 4 characters and \<open>resolveSymbol\<close> maps it back to that
  symbol; and \<open>getAlias\<close> reads nothing but the table, so a call on any client with the
  same table returns the same alias.
\<close>

theorem getAlias_roundtrip:
  assumes "symbolAliases (c :: 'a client) = SYMBOL_ALIASES" and "getAlias c s = Some a"
  shows "length a \<le> 4 \<and> resolveSymbol c a = s \<and>
         (\<forall>c' :: 'a client. symbolAliases c' = symbolAliases c \<longrightarrow> getAlias c' s = Some a)"
proof -
  from assms have mem: "(a, s) \<in> set SYMBOL_ALIASES" and len: "length a \<le> 4"
    using aliasLoop_Some [of SYMBOL_ALIASES s a] by (simp_all add: getAlias_def)
  from mem alias_keys_resolve have up: "toUpperCase a = a"
    and look: "map_of SYMBOL_ALIASES a = Some s"
    by fastforce+
  have "aliasEntry SYMBOL_ALIASES a = Some s"
    using look aliasEntry_Some [OF aliases_nonempty] by simp
  then have "resolveSymbol c a = s"
    by (simp add: resolveSymbol_def up assms(1))
  moreover have "\<forall>c' :: 'a client. symbolAliases c' = symbolAliases c \<longrightarrow> getAlias c' s = Some a"
    using assms by (simp add: getAlias_def)
  ultimately show ?thesis using len by simp
qed

theorem getAlias_roundtrip_witness:
  "symbolAliases (newClient :: unit client) = SYMBOL_ALIASES \<and>
   getAlias (newClient :: unit client) ''frxXAUUSD'' = Some ''XAU'' \<and>
   length ''XAU'' \<le> 4 \<and> resolveSymbol (newClient :: unit client) ''XAU'' = ''frxXAUUSD''"
proof -
  have t: "symbolAliases (newClient :: unit client) = SYMBOL_ALIASES"
    by (simp add: newClient_def)
  have g: "getAlias (newClient :: unit client) ''frxXAUUSD'' = Some ''XAU''"
    by (simp add: getAlias_def newClient_def SYMBOL_ALIASES_def)
  from getAlias_roundtrip [OF t g] t g show ?thesis by simp
qed

section \<open>Replay after a reconnect\<close>

lemma mapSet_same: "map_of m k = Some v \<Longrightarrow> mapSet k v m = m"
  by (induction m) (auto split: if_splits)

lemma mapHas_mapDelete: "\<not> mapHas (mapDelete k m) k"
  by (auto simp: mapHas_def mapDelete_def)

lemma mapGet_mapDelete_other: "k' \<noteq> k \<Longrightarrow> mapGet (mapDelete k m) k' = mapGet m k'"
  by (induction m) (auto simp: mapGet_def mapDelete_def)

lemma mapGet_mapDelete_same: "mapGet (mapDelete k m) k = None"
  by (induction m) (auto simp: mapGet_def mapDelete_def)

text \<open>One step of the replay, by the feed's answer.\<close>

lemma replay_step_granted:
  assumes "feed sy (reqId c + 1) = RespSubscription sid"
    and "map_of (callbacks c) sy = Some cb"
  shows "subscribe feed (c\<lparr>subscriptions := mapDelete sy (subscriptions c)\<rparr>) sy cb =
           (c\<lparr>reqId := reqId c + 1, sent := sent c @ [SubscribeReq sy (reqId c + 1)],
              subscriptions := mapSet sy sid (mapDelete sy (subscriptions c))\<rparr>, Resolved)"
  using assms by (simp add: subscribe_def mapHas_mapDelete mapSet_same)

lemma replay_step_rejected:
  assumes "feed sy (reqId c + 1) = RespError e"
  shows "subscribe feed (c\<lparr>subscriptions := mapDelete sy (subscriptions c)\<rparr>) sy cb =
           (c\<lparr>reqId := reqId c + 1, sent := sent c @ [SubscribeReq sy (reqId c + 1)],
              subscriptions := mapDelete sy (subscriptions c),
              logged := logged c @ [''API Error: '' @ e]\<rparr>, Rejected e)"
  using assms by (simp add: subscribe_def mapHas_mapDelete)

lemma replay_step_callbacks:
  assumes "map_of (callbacks c) sy = Some cb"
  shows "callbacks (fst (subscribe feed (c\<lparr>subscriptions := mapDelete sy (subscriptions c)\<rparr>) sy cb)) =
           callbacks c"
  using assms
  by (cases "feed sy (reqId c + 1)") (simp_all add: subscribe_def mapHas_mapDelete mapSet_same)

lemma resubscribeLoop_callbacks:
  "\<forall>e \<in> set es. map_of (callbacks c) (fst e) = Some (snd e) \<Longrightarrow>
   callbacks (fst (resubscribeLoop feed c es)) = callbacks c"
proof (induction es arbitrary: c)
  case Nil
  then show ?case by simp
next
  case (Cons x es)
  obtain sy cb where x: "x = (sy, cb)" by (cases x)
  let ?c1 = "c\<lparr>subscriptions := mapDelete sy (subscriptions c)\<rparr>"
  obtain c' out where sub: "subscribe feed ?c1 sy cb = (c', out)"
    by (cases "subscribe feed ?c1 sy cb")
  from Cons.prems x have bound: "map_of (callbacks c) sy = Some cb" by simp
  from replay_step_callbacks [OF bound, of feed] sub have cbs: "callbacks c' = callbacks c"
    by simp
  show ?case
  proof (cases out)
    case Resolved
    from Cons.prems cbs have "\<forall>e \<in> set es. map_of (callbacks c') (fst e) = Some (snd e)"
      by simp
    from Cons.IH [OF this] cbs show ?thesis
      by (simp add: x sub Resolved)
  next
    case (Rejected e)
    with cbs show ?thesis by (simp add: x sub)
  next
    case Pending
    with cbs show ?thesis by (simp add: x sub)
  qed
qed

lemma grantedHandles_symbols:
  "grantsAll feed ss r \<Longrightarrow> map fst (grantedHandles feed ss r) = ss"
  by (induction ss arbitrary: r) (auto split: response.splits)

lemma resubscribeLoop_granted:
  "grantsAll feed (map fst pre) (reqId c) \<Longrightarrow>
   \<forall>e \<in> set pre. map_of (callbacks c) (fst e) = Some (snd e) \<Longrightarrow>
   distinct (map fst pre) \<Longrightarrow>
   \<exists>c'. resubscribeLoop feed c (pre @ rest) = resubscribeLoop feed c' rest \<and>
        callbacks c' = callbacks c \<and>
        reqId c' = reqId c + length pre \<and>
        sent c' = sent c @ subscribeReqs (map fst pre) (reqId c) \<and>
        logged c' = logged c \<and>
        (\<forall>s. s \<notin> set (map fst pre) \<longrightarrow> mapGet (subscriptions c') s = mapGet (subscriptions c) s) \<and>
        (\<forall>h \<in> set (grantedHandles feed (map fst pre) (reqId c)).
           mapGet (subscriptions c') (fst h) = Some (snd h))"
proof (induction pre arbitrary: c)
  case Nil
  show ?case by (intro exI [of _ c]) simp
next
  case (Cons x pre)
  obtain sy cb where x: "x = (sy, cb)" by (cases x)
  from Cons.prems(1) x obtain sid where sid: "feed sy (reqId c + 1) = RespSubscription sid"
    and more: "grantsAll feed (map fst pre) (reqId c + 1)"
    by (auto split: response.splits)
  from Cons.prems(2) x have bound: "map_of (callbacks c) sy = Some cb" by simp
  let ?c2 = "c\<lparr>reqId := reqId c + 1, sent := sent c @ [SubscribeReq sy (reqId c + 1)],
              subscriptions := mapSet sy sid (mapDelete sy (subscriptions c))\<rparr>"
  have step: "resubscribeLoop feed c ((x # pre) @ rest) = resubscribeLoop feed ?c2 (pre @ rest)"
    by (simp add: x replay_step_granted [where feed = feed and sy = sy and c = c, OF sid bound])
  have g2: "grantsAll feed (map fst pre) (reqId ?c2)" using more by simp
  have b2: "\<forall>e \<in> set pre. map_of (callbacks ?c2) (fst e) = Some (snd e)"
    using Cons.prems(2) by simp
  from Cons.prems(3) x have fresh: "sy \<notin> set (map fst pre)" and d2: "distinct (map fst pre)"
    by simp_all
  from Cons.IH [OF g2 b2 d2] obtain c' where
    c': "resubscribeLoop feed ?c2 (pre @ rest) = resubscribeLoop feed c' rest"
      "callbacks c' = callbacks ?c2" "reqId c' = reqId ?c2 + length pre"
      "sent c' = sent ?c2 @ subscribeReqs (map fst pre) (reqId ?c2)"
      "logged c' = logged ?c2"
      "\<forall>s. s \<notin> set (map fst pre) \<longrightarrow> mapGet (subscriptions c') s = mapGet (subscriptions ?c2) s"
      "\<forall>h \<in> set (grantedHandles feed (map fst pre) (reqId ?c2)).
         mapGet (subscriptions c') (fst h) = Some (snd h)"
    by blast
  have subs: "\<forall>s. s \<notin> set (map fst (x # pre)) \<longrightarrow>
                mapGet (subscriptions c') s = mapGet (subscriptions c) s"
    using c'(6) by (simp add: x mapGet_mapSet_other mapGet_mapDelete_other)
  from fresh c'(6) have head: "mapGet (subscriptions c') sy = Some sid"
    by (simp add: mapGet_mapSet_same)
  have handles: "\<forall>h \<in> set (grantedHandles feed (map fst (x # pre)) (reqId c)).
                   mapGet (subscriptions c') (fst h) = Some (snd h)"
    using head c'(7) sid by (auto simp: x)
  show ?case
    using step c'(1-5) subs handles by (intro exI [of _ c']) (simp add: x)
qed

lemma subscribeReqs_append:
  "subscribeReqs (xs @ ys) r = subscribeReqs xs r @ subscribeReqs ys (r + length xs)"
  by (induction xs arbitrary: r) simp_all

lemma map_of_bound:
  "distinct (map fst m) \<Longrightarrow> \<forall>e \<in> set m. map_of m (fst e) = Some (snd e)"
  by auto

text \<open>
  Claim C3, as the code has it. The replay visits the registered symbol/callback pairs in
  registration order, clears each stale handle and subscribes again with the same
  callback. Whatever the feed answers, the callback bindings after the replay are the ones
  before it. When the feed grants every request, the replay resolves, one request per
  symbol has been sent, nothing is logged and every symbol has the handle the feed granted
  it. When the feed rejects the request for a symbol, after granting the ones before it,
  the replay ends there: the error is logged as it arrives and the failure once more by
  the \<open>catch\<close>, requests have been sent for the symbols up to the rejected one only, the
  symbols before it have their new handles, the rejected one has none, and the symbols
  after it keep the handles they had.
\<close>

theorem resubscribe_replay:
  assumes "distinct (map fst (callbacks c))"
  shows
   "callbacks (fst (resubscribe feed c)) = callbacks c \<and>
    (grantsAll feed (map fst (callbacks c)) (reqId c) \<longrightarrow>
       snd (resubscribe feed c) = Resolved \<and>
       sent (fst (resubscribe feed c)) =
         sent c @ subscribeReqs (map fst (callbacks c)) (reqId c) \<and>
       logged (fst (resubscribe feed c)) = logged c \<and>
       map fst (grantedHandles feed (map fst (callbacks c)) (reqId c)) = map fst (callbacks c) \<and>
       (\<forall>h \<in> set (grantedHandles feed (map fst (callbacks c)) (reqId c)).
          mapGet (subscriptions (fst (resubscribe feed c))) (fst h) = Some (snd h))) \<and>
    (\<forall>pre sy cb post e.
       callbacks c = pre @ (sy, cb) # post \<and>
       grantsAll feed (map fst pre) (reqId c) \<and>
       feed sy (reqId c + length pre + 1) = RespError e \<longrightarrow>
         snd (resubscribe feed c) = Rejected e \<and>
         sent (fst (resubscribe feed c)) =
           sent c @ subscribeReqs (map fst pre @ [sy]) (reqId c) \<and>
         logged (fst (resubscribe feed c)) =
           logged c @ [''API Error: '' @ e, ''Reconnection failed: '' @ e] \<and>
         (\<forall>h \<in> set (grantedHandles feed (map fst pre) (reqId c)).
            mapGet (subscriptions (fst (resubscribe feed c))) (fst h) = Some (snd h)) \<and>
         mapGet (subscriptions (fst (resubscribe feed c))) sy = None \<and>
         (\<forall>s \<in> set (map fst post).
            mapGet (subscriptions (fst (resubscribe feed c))) s = mapGet (subscriptions c) s))"
proof -
  from assms have bound: "\<forall>e \<in> set (callbacks c). map_of (callbacks c) (fst e) = Some (snd e)"
    by (rule map_of_bound)
  have kept: "callbacks (fst (resubscribe feed c)) = callbacks c"
    using resubscribeLoop_callbacks [OF bound, of feed]
    by (cases "resubscribeLoop feed c (callbacks c)")
       (auto simp: resubscribe_def split: outcome.splits)
  have all: "snd (resubscribe feed c) = Resolved \<and>
             sent (fst (resubscribe feed c)) =
               sent c @ subscribeReqs (map fst (callbacks c)) (reqId c) \<and>
             logged (fst (resubscribe feed c)) = logged c \<and>
             map fst (grantedHandles feed (map fst (callbacks c)) (reqId c)) =
               map fst (callbacks c) \<and>
             (\<forall>h \<in> set (grantedHandles feed (map fst (callbacks c)) (reqId c)).
                mapGet (subscriptions (fst (resubscribe feed c))) (fst h) = Some (snd h))"
    if g: "grantsAll feed (map fst (callbacks c)) (reqId c)"
  proof -
    from resubscribeLoop_granted [OF g bound assms, of "[]"] obtain c' where
      "resubscribeLoop feed c (callbacks c) = (c', Resolved)"
      "sent c' = sent c @ subscribeReqs (map fst (callbacks c)) (reqId c)"
      "logged c' = logged c"
      "\<forall>h \<in> set (grantedHandles feed (map fst (callbacks c)) (reqId c)).
         mapGet (subscriptions c') (fst h) = Some (snd h)"
      by auto
    then show ?thesis
      using grantedHandles_symbols [OF g] by (simp add: resubscribe_def)
  qed
  have stop: "snd (resubscribe feed c) = Rejected e \<and>
         sent (fst (resubscribe feed c)) =
           sent c @ subscribeReqs (map fst pre @ [sy]) (reqId c) \<and>
         logged (fst (resubscribe feed c)) =
           logged c @ [''API Error: '' @ e, ''Reconnection failed: '' @ e] \<and>
         (\<forall>h \<in> set (grantedHandles feed (map fst pre) (reqId c)).
            mapGet (subscriptions (fst (resubscribe feed c))) (fst h) = Some (snd h)) \<and>
         mapGet (subscriptions (fst (resubscribe feed c))) sy = None \<and>
         (\<forall>s \<in> set (map fst post).
            mapGet (subscriptions (fst (resubscribe feed c))) s = mapGet (subscriptions c) s)"
    if split: "callbacks c = pre @ (sy, cb) # post"
      and g: "grantsAll feed (map fst pre) (reqId c)"
      and rej: "feed sy (reqId c + length pre + 1) = RespError e"
    for pre sy cb post e
  proof -
    from bound split have bpre: "\<forall>e \<in> set pre. map_of (callbacks c) (fst e) = Some (snd e)"
      by simp
    from assms split have dpre: "distinct (map fst pre)" by simp
    from resubscribeLoop_granted [OF g bpre dpre, of "(sy, cb) # post"] obtain c' where
      c': "resubscribeLoop feed c (pre @ (sy, cb) # post) = resubscribeLoop feed c' ((sy, cb) # post)"
        "reqId c' = reqId c + length pre"
        "sent c' = sent c @ subscribeReqs (map fst pre) (reqId c)"
        "logged c' = logged c"
        "\<forall>s. s \<notin> set (map fst pre) \<longrightarrow> mapGet (subscriptions c') s = mapGet (subscriptions c) s"
        "\<forall>h \<in> set (grantedHandles feed (map fst pre) (reqId c)).
           mapGet (subscriptions c') (fst h) = Some (snd h)"
      by blast
    from rej c'(2) have rej': "feed sy (reqId c' + 1) = RespError e"
      by (simp add: add.commute add.left_commute)
    let ?c'' = "c'\<lparr>reqId := reqId c' + 1, sent := sent c' @ [SubscribeReq sy (reqId c' + 1)],
              subscriptions := mapDelete sy (subscriptions c'),
              logged := logged c' @ [''API Error: '' @ e]\<rparr>"
    have loop: "resubscribeLoop feed c (callbacks c) = (?c'', Rejected e)"
      by (simp add: split c'(1) replay_step_rejected [where feed = feed and sy = sy and c = c', OF rej'])
    from assms split have apart: "\<forall>s \<in> set (map fst post). s \<noteq> sy \<and> s \<notin> set (map fst pre)"
      by auto
    from assms split have others: "sy \<notin> set (map fst pre)" by auto
    have subs: "\<forall>s \<in> set (map fst post). mapGet (subscriptions ?c'') s = mapGet (subscriptions c) s"
      using apart c'(5) by (simp add: mapGet_mapDelete_other)
    have "\<forall>h \<in> set (grantedHandles feed (map fst pre) (reqId c)). fst h \<noteq> sy"
      using others grantedHandles_symbols [OF g] by (metis image_eqI list.set_map)
    then have handles: "\<forall>h \<in> set (grantedHandles feed (map fst pre) (reqId c)).
                          mapGet (subscriptions ?c'') (fst h) = Some (snd h)"
      using c'(6) by (simp add: mapGet_mapDelete_other)
    have gone: "mapGet (subscriptions ?c'') sy = None"
      by (simp add: mapGet_mapDelete_same)
    have snt: "sent ?c'' = sent c @ subscribeReqs (map fst pre @ [sy]) (reqId c)"
      by (simp add: c'(2,3) subscribeReqs_append)
    have lg: "logged ?c'' @ [''Reconnection failed: '' @ e] =
                logged c @ [''API Error: '' @ e, ''Reconnection failed: '' @ e]"
      by (simp add: c'(4))
    show ?thesis
      using loop subs snt lg handles gone by (simp add: resubscribe_def)
  qed
  from kept all stop show ?thesis by blast
qed

theorem resubscribe_replay_witness:
  "distinct (map fst (callbacks (newClient\<lparr>
       subscriptions := [(''R_10'', ''old-R_10''), (''R_25'', ''old-R_25''), (''R_50'', ''old-R_50'')],
       callbacks := [(''R_10'', 1), (''R_25'', 2), (''R_50'', 3)]\<rparr> :: nat client))) \<and>
   grantsAll feedAccepts [''R_10'', ''R_25'', ''R_50''] 0 \<and>
   snd (resubscribe feedAccepts (newClient\<lparr>
       subscriptions := [(''R_10'', ''old-R_10''), (''R_25'', ''old-R_25''), (''R_50'', ''old-R_50'')],
       callbacks := [(''R_10'', 1), (''R_25'', 2), (''R_50'', 3)]\<rparr> :: nat client)) = Resolved \<and>
   sent (fst (resubscribe feedAccepts (newClient\<lparr>
       subscriptions := [(''R_10'', ''old-R_10''), (''R_25'', ''old-R_25''), (''R_50'', ''old-R_50'')],
       callbacks := [(''R_10'', 1), (''R_25'', 2), (''R_50'', 3)]\<rparr> :: nat client))) =
     [SubscribeReq ''R_10'' 1, SubscribeReq ''R_25'' 2, SubscribeReq ''R_50'' 3] \<and>
   grantsAll (feedRejects ''R_25'') [''R_10''] 0 \<and>
   feedRejects ''R_25'' ''R_25'' 2 = RespError ''MarketIsClosed'' \<and>
   snd (resubscribe (feedRejects ''R_25'') (newClient\<lparr>
       subscriptions := [(''R_10'', ''old-R_10''), (''R_25'', ''old-R_25''), (''R_50'', ''old-R_50'')],
       callbacks := [(''R_10'', 1), (''R_25'', 2), (''R_50'', 3)]\<rparr> :: nat client)) =
     Rejected ''MarketIsClosed'' \<and>
   sent (fst (resubscribe (feedRejects ''R_25'') (newClient\<lparr>
       subscriptions := [(''R_10'', ''old-R_10''), (''R_25'', ''old-R_25''), (''R_50'', ''old-R_50'')],
       callbacks := [(''R_10'', 1), (''R_25'', 2), (''R_50'', 3)]\<rparr> :: nat client))) =
     [SubscribeReq ''R_10'' 1, SubscribeReq ''R_25'' 2] \<and>
   callbacks (fst (resubscribe (feedRejects ''R_25'') (newClient\<lparr>
       subscriptions := [(''R_10'', ''old-R_10''), (''R_25'', ''old-R_25''), (''R_50'', ''old-R_50'')],
       callbacks := [(''R_10'', 1), (''R_25'', 2), (''R_50'', 3)]\<rparr> :: nat client))) =
     [(''R_10'', 1), (''R_25'', 2), (''R_50'', 3)] \<and>
   logged (fst (resubscribe (feedRejects ''R_25'') (newClient\<lparr>
       subscriptions := [(''R_10'', ''old-R_10''), (''R_25'', ''old-R_25''), (''R_50'', ''old-R_50'')],
       callbacks := [(''R_10'', 1), (''R_25'', 2), (''R_50'', 3)]\<rparr> :: nat client))) =
     [''API Error: MarketIsClosed'', ''Reconnection failed: MarketIsClosed''] \<and>
   mapGet (subscriptions (fst (resubscribe (feedRejects ''R_25'') (newClient\<lparr>
       subscriptions := [(''R_10'', ''old-R_10''), (''R_25'', ''old-R_25''), (''R_50'', ''old-R_50'')],
       callbacks := [(''R_10'', 1), (''R_25'', 2), (''R_50'', 3)]\<rparr> :: nat client)))) ''R_10'' =
     Some ''sub-R_10'' \<and>
   mapGet (subscriptions (fst (resubscribe (feedRejects ''R_25'') (newClient\<lparr>
       subscriptions := [(''R_10'', ''old-R_10''), (''R_25'', ''old-R_25''), (''R_50'', ''old-R_50'')],
       callbacks := [(''R_10'', 1), (''R_25'', 2), (''R_50'', 3)]\<rparr> :: nat client)))) ''R_25'' =
     None \<and>
   mapGet (subscriptions (fst (resubscribe (feedRejects ''R_25'') (newClient\<lparr>
       subscriptions := [(''R_10'', ''old-R_10''), (''R_25'', ''old-R_25''), (''R_50'', ''old-R_50'')],
       callbacks := [(''R_10'', 1), (''R_25'', 2), (''R_50'', 3)]\<rparr> :: nat client)))) ''R_50'' =
     Some ''old-R_50'' \<and>
   mapGet (subscriptions (fst (resubscribe feedAccepts (newClient\<lparr>
       subscriptions := [(''R_10'', ''old-R_10''), (''R_25'', ''old-R_25''), (''R_50'', ''old-R_50'')],
       callbacks := [(''R_10'', 1), (''R_25'', 2), (''R_50'', 3)]\<rparr> :: nat client)))) ''R_50'' =
     Some ''sub-R_50''"
proof -
  let ?c = "newClient\<lparr>
       subscriptions := [(''R_10'', ''old-R_10''), (''R_25'', ''old-R_25''), (''R_50'', ''old-R_50'')],
       callbacks := [(''R_10'', 1), (''R_25'', 2), (''R_50'', 3)]\<rparr> :: nat client"
  have d: "distinct (map fst (callbacks ?c))" by simp
  have ga: "grantsAll feedAccepts (map fst (callbacks ?c)) (reqId ?c)"
    by (simp add: feedAccepts_def newClient_def)
  have gr: "callbacks ?c = [(''R_10'', 1)] @ (''R_25'', 2) # [(''R_50'', 3)] \<and>
            grantsAll (feedRejects ''R_25'') (map fst [(''R_10'', 1 :: nat)]) (reqId ?c) \<and>
            feedRejects ''R_25'' ''R_25'' (reqId ?c + length [(''R_10'', 1 :: nat)] + 1) =
              RespError ''MarketIsClosed''"
    by (simp add: feedRejects_def newClient_def)
  note granted = resubscribe_replay [OF d, of feedAccepts, THEN conjunct2, THEN conjunct1,
      rule_format, OF ga]
  note stopped = resubscribe_replay [OF d, of "feedRejects ''R_25''", THEN conjunct2,
      THEN conjunct2, rule_format, OF gr]
  note kept = resubscribe_replay [OF d, of "feedRejects ''R_25''", THEN conjunct1]
  have a1: "grantsAll feedAccepts [''R_10'', ''R_25'', ''R_50''] 0"
    using ga by (simp add: newClient_def)
  have a2: "snd (resubscribe feedAccepts ?c) = Resolved"
    using granted by simp
  have a3: "sent (fst (resubscribe feedAccepts ?c)) =
              [SubscribeReq ''R_10'' 1, SubscribeReq ''R_25'' 2, SubscribeReq ''R_50'' 3]"
    using granted by (simp add: newClient_def)
  have b1: "grantsAll (feedRejects ''R_25'') [''R_10''] 0"
    using gr by (simp add: newClient_def)
  have b2: "feedRejects ''R_25'' ''R_25'' 2 = RespError ''MarketIsClosed''"
    by (simp add: feedRejects_def)
  have b3: "snd (resubscribe (feedRejects ''R_25'') ?c) = Rejected ''MarketIsClosed''"
    using stopped by simp
  have b4: "sent (fst (resubscribe (feedRejects ''R_25'') ?c)) =
              [SubscribeReq ''R_10'' 1, SubscribeReq ''R_25'' 2]"
    using stopped by (simp add: newClient_def)
  have b5: "callbacks (fst (resubscribe (feedRejects ''R_25'') ?c)) =
              [(''R_10'', 1), (''R_25'', 2), (''R_50'', 3)]"
    using kept by simp
  have b6: "logged (fst (resubscribe (feedRejects ''R_25'') ?c)) =
              [''API Error: MarketIsClosed'', ''Reconnection failed: MarketIsClosed'']"
    using stopped by (simp add: newClient_def)
  have b7: "mapGet (subscriptions (fst (resubscribe (feedRejects ''R_25'') ?c))) ''R_10'' =
              Some ''sub-R_10''"
    using stopped by (simp add: newClient_def feedRejects_def)
  have b8: "mapGet (subscriptions (fst (resubscribe (feedRejects ''R_25'') ?c))) ''R_25'' = None"
    using stopped by simp
  have b9: "mapGet (subscriptions (fst (resubscribe (feedRejects ''R_25'') ?c))) ''R_50'' =
              Some ''old-R_50''"
    using stopped by (simp add: mapGet_def)
  have a4: "mapGet (subscriptions (fst (resubscribe feedAccepts ?c))) ''R_50'' = Some ''sub-R_50''"
    using granted by (simp add: newClient_def feedAccepts_def)
  from d a1 a2 a3 b1 b2 b3 b4 b5 b6 b7 b8 b9 a4 show ?thesis
    by (intro conjI)
qed

text \<open>
  Claim C3 as written lets the replay go on after a failure. With \<open>R_10\<close> and \<open>R_25\<close>
  registered and a feed that rejects \<open>R_10\<close> (and would grant \<open>R_25\<close>), the replay is
  rejected after the one request for \<open>R_10\<close>: none is sent for \<open>R_25\<close>, which is left
  with its stale handle, and the log holds the two lines of that one failure.
\<close>

theorem resubscribe_counterexample:
  "snd (resubscribe (feedRejects ''R_10'') (newClient\<lparr>
       subscriptions := [(''R_10'', ''old-R_10''), (''R_25'', ''old-R_25'')],
       callbacks := [(''R_10'', 1), (''R_25'', 2)]\<rparr> :: nat client)) = Rejected ''MarketIsClosed'' \<and>
   feedRejects ''R_10'' ''R_25'' 2 = RespSubscription ''sub-R_25'' \<and>
   sent (fst (resubscribe (feedRejects ''R_10'') (newClient\<lparr>
       subscriptions := [(''R_10'', ''old-R_10''), (''R_25'', ''old-R_25'')],
       callbacks := [(''R_10'', 1), (''R_25'', 2)]\<rparr> :: nat client))) = [SubscribeReq ''R_10'' 1] \<and>
   subscriptions (fst (resubscribe (feedRejects ''R_10'') (newClient\<lparr>
       subscriptions := [(''R_10'', ''old-R_10''), (''R_25'', ''old-R_25'')],
       callbacks := [(''R_10'', 1), (''R_25'', 2)]\<rparr> :: nat client))) = [(''R_25'', ''old-R_25'')] \<and>
   logged (fst (resubscribe (feedRejects ''R_10'') (newClient\<lparr>
       subscriptions := [(''R_10'', ''old-R_10''), (''R_25'', ''old-R_25'')],
       callbacks := [(''R_10'', 1), (''R_25'', 2)]\<rparr> :: nat client))) =
     [''API Error: MarketIsClosed'', ''Reconnection failed: MarketIsClosed'']"
  by (simp add: resubscribe_def subscribe_def feedRejects_def newClient_def mapHas_def
        mapDelete_def Let_def)

section \<open>Evaluating the alerts on a tick\<close>

lemma checkLoop_alerts:
  "fst (checkLoop sy cur prev seen todo out sv) = seen @ map (afterCheck sy cur prev) todo"
  by (induction todo arbitrary: seen out sv)
     (auto simp: afterCheck_def firesOn_def Let_def)

lemma checkLoop_fired:
  "fst (snd (checkLoop sy cur prev seen todo out sv)) =
     out @ map (\<lambda>a. a\<lparr>triggered := True\<rparr>) (filter (firesOn sy cur prev) todo)"
  by (induction todo arbitrary: seen out sv)
     (auto simp: firesOn_def Let_def)

lemma checkAlerts_alerts:
  "alerts (snd (checkAlerts m sy cur prev)) = map (afterCheck sy cur prev) (alerts m)"
  using checkLoop_alerts [of sy cur prev "[]" "alerts m" "[]" "saves m"]
  by (cases "checkLoop sy cur prev [] (alerts m) [] (saves m)") (simp add: checkAlerts_def)

lemma checkAlerts_fired:
  "fst (checkAlerts m sy cur prev) =
     map (\<lambda>a. a\<lparr>triggered := True\<rparr>) (filter (firesOn sy cur prev) (alerts m))"
  using checkLoop_fired [of sy cur prev "[]" "alerts m" "[]" "saves m"]
  by (cases "checkLoop sy cur prev [] (alerts m) [] (saves m)") (simp add: checkAlerts_def)

lemma afterCheck_id: "map alert_id (map (afterCheck sy cur prev) as) = map alert_id as"
  by (induction as) (simp_all add: afterCheck_def)

lemma filter_key_distinct:
  "distinct (map f xs) \<Longrightarrow> x \<in> set xs \<Longrightarrow> filter (\<lambda>r. f r = f x) xs = [x]"
proof (induction xs)
  case Nil
  then show ?case by simp
next
  case (Cons y ys)
  show ?case
  proof (cases "y = x")
    case True
    with Cons.prems have "\<forall>r \<in> set ys. f r \<noteq> f x" by (auto simp: image_iff)
    then have "filter (\<lambda>r. f r = f x) ys = []" by (simp add: filter_empty_conv)
    with True show ?thesis by simp
  next
    case False
    with Cons.prems have "x \<in> set ys" "f y \<noteq> f x" by (auto simp: image_iff)
    with Cons show ?thesis by simp
  qed
qed

lemma timesFired_checkAlerts:
  assumes "distinct (map alert_id (alerts m))" and "a \<in> set (alerts m)"
  shows "timesFired (alert_id a) (fst (checkAlerts m sy cur prev)) =
           (if firesOn sy cur prev a then 1 else 0)"
proof -
  have "filter (\<lambda>r. alert_id r = alert_id a)
          (map (\<lambda>a. a\<lparr>triggered := True\<rparr>) (filter (firesOn sy cur prev) (alerts m))) =
        map (\<lambda>a. a\<lparr>triggered := True\<rparr>)
          (filter (firesOn sy cur prev) (filter (\<lambda>r. alert_id r = alert_id a) (alerts m)))"
    by (simp add: filter_map comp_def conj_commute)
  also have "\<dots> = map (\<lambda>a. a\<lparr>triggered := True\<rparr>) (filter (firesOn sy cur prev) [a])"
    using filter_key_distinct [OF assms] by simp
  finally show ?thesis
    by (simp add: timesFired_def checkAlerts_fired)
qed

lemma timesFired_pos_iff:
  "(\<exists>r \<in> set fired. alert_id r = i) \<longleftrightarrow> timesFired i fired > 0"
  by (auto simp: timesFired_def filter_empty_conv)

lemma feedTick_unfold:
  assumes "sy \<noteq> []" and "mapGet (callbacks c) sy = Some cb"
  shows "feedTick (c, m) sy p =
           ((c\<lparr>prices := mapSet sy \<lparr>current = p, previous =
                   (case mapGet (prices c) sy of Some d \<Rightarrow> current d | None \<Rightarrow> p)\<rparr> (prices c)\<rparr>,
             snd (checkAlerts m sy p (case mapGet (prices c) sy of Some d \<Rightarrow> current d | None \<Rightarrow> p))),
            fst (checkAlerts m sy p (case mapGet (prices c) sy of Some d \<Rightarrow> current d | None \<Rightarrow> p)))"
  using assms
  by (auto simp: feedTick_def handleMessage_def handlePriceTick_def Let_def
      split: option.splits prod.splits)


lemma runTicks_one:
  assumes "sy \<noteq> []" and "mapGet (callbacks c) sy = Some cb"
  shows "runTicks (c, m) sy [p] =
           [fst (checkAlerts m sy p (case mapGet (prices c) sy of Some d \<Rightarrow> current d | None \<Rightarrow> p))]"
  by (simp add: feedTick_unfold [OF assms])

lemma runTicks_two:
  assumes "sy \<noteq> []" and "mapGet (callbacks c) sy = Some cb"
  shows "runTicks (c, m) sy [p, q] =
           [fst (checkAlerts m sy p (case mapGet (prices c) sy of Some d \<Rightarrow> current d | None \<Rightarrow> p)),
            fst (checkAlerts
                   (snd (checkAlerts m sy p
                      (case mapGet (prices c) sy of Some d \<Rightarrow> current d | None \<Rightarrow> p))) sy q p)]"
proof -
  let ?prev = "case mapGet (prices c) sy of Some d \<Rightarrow> current d | None \<Rightarrow> p"
  let ?c1 = "c\<lparr>prices := mapSet sy \<lparr>current = p, previous = ?prev\<rparr> (prices c)\<rparr>"
  have cb1: "mapGet (callbacks ?c1) sy = Some cb" using assms(2) by simp
  have pr1: "mapGet (prices ?c1) sy = Some \<lparr>current = p, previous = ?prev\<rparr>"
    by (simp add: mapGet_mapSet_same)
  show ?thesis
    by (simp add: feedTick_unfold [OF assms] feedTick_unfold [OF assms(1) cb1] mapGet_mapSet_same)
qed

lemma timesFired_second:
  assumes "distinct (map alert_id (alerts m))" and "a \<in> set (alerts m)"
  shows "timesFired (alert_id a) (fst (checkAlerts (snd (checkAlerts m sy p prev)) sy q p')) =
           (if firesOn sy q p' (afterCheck sy p prev a) then 1 else 0)"
proof -
  let ?m1 = "snd (checkAlerts m sy p prev)"
  have d1: "distinct (map alert_id (alerts ?m1))"
    using assms(1) by (simp only: checkAlerts_alerts afterCheck_id)
  have in1: "afterCheck sy p prev a \<in> set (alerts ?m1)"
    using assms(2) by (simp add: checkAlerts_alerts)
  have "alert_id (afterCheck sy p prev a) = alert_id a"
    by (simp add: afterCheck_def)
  with timesFired_checkAlerts [OF d1 in1, of sy q p'] show ?thesis by simp
qed

text \<open>
  Claim C1. Take a rule of the manager (ids being unique) with condition \<open>above\<close> that is
  enabled, is on the tick's symbol and is not skipped as triggered without repeat. Then
  \<open>checkAlerts\<close> returns it if and only if the current price is at or above the target
  and either the previous price was below the target or the rule was not triggered yet.
  When it fires, it is returned once, with \<open>triggered\<close> set, and stored so; otherwise it
  is left as it was. Hence, for such a rule not yet triggered and a subscribed symbol with
  no price seen before, the ticks \<open>[T - 1, T + 1]\<close> fire it exactly once, at the second
  tick, and the single tick \<open>[T + 1]\<close> fires it once, at once.
\<close>

theorem checkAlerts_above:
  assumes "distinct (map alert_id (alerts m))"
    and "i < length (alerts m)" and "alerts m ! i = a"
    and "condition a = ''above''" and "enabled a" and "symbol a = sy"
    and "\<not> (triggered a \<and> \<not> repeat a)"
  shows
   "((\<exists>r \<in> set (fst (checkAlerts m sy cur prev)). alert_id r = alert_id a) \<longleftrightarrow>
       (cur \<ge> price a \<and> prev < price a) \<or> (cur \<ge> price a \<and> \<not> triggered a)) \<and>
    ((cur \<ge> price a \<and> prev < price a) \<or> (cur \<ge> price a \<and> \<not> triggered a) \<longrightarrow>
       alerts (snd (checkAlerts m sy cur prev)) ! i = a\<lparr>triggered := True\<rparr> \<and>
       a\<lparr>triggered := True\<rparr> \<in> set (fst (checkAlerts m sy cur prev)) \<and>
       timesFired (alert_id a) (fst (checkAlerts m sy cur prev)) = 1) \<and>
    (\<not> ((cur \<ge> price a \<and> prev < price a) \<or> (cur \<ge> price a \<and> \<not> triggered a)) \<longrightarrow>
       alerts (snd (checkAlerts m sy cur prev)) ! i = a \<and>
       timesFired (alert_id a) (fst (checkAlerts m sy cur prev)) = 0) \<and>
    (\<not> triggered a \<and> sy \<noteq> [] \<and> mapGet (prices c) sy = None \<and> mapGet (callbacks c) sy = Some cb \<longrightarrow>
       map (timesFired (alert_id a)) (runTicks (c, m) sy [price a - 1, price a + 1]) = [0, 1] \<and>
       map (timesFired (alert_id a)) (runTicks (c, m) sy [price a + 1]) = [1])"
proof -
  from assms(2,3) have mem: "a \<in> set (alerts m)" by auto
  have fires: "firesOn sy x y a \<longleftrightarrow>
                 (x \<ge> price a \<and> y < price a) \<or> (x \<ge> price a \<and> \<not> triggered a)" for x y
    using assms(4-7) by (auto simp: firesOn_def switchTriggered_def)
  note count = timesFired_checkAlerts [OF assms(1) mem]
  have after: "alerts (snd (checkAlerts m sy cur prev)) ! i = afterCheck sy cur prev a"
    using assms(2,3) by (simp add: checkAlerts_alerts)
  have part1: "(\<exists>r \<in> set (fst (checkAlerts m sy cur prev)). alert_id r = alert_id a) \<longleftrightarrow>
       (cur \<ge> price a \<and> prev < price a) \<or> (cur \<ge> price a \<and> \<not> triggered a)"
    by (simp only: timesFired_pos_iff count fires [symmetric]) simp
  have part2: "alerts (snd (checkAlerts m sy cur prev)) ! i = a\<lparr>triggered := True\<rparr> \<and>
       a\<lparr>triggered := True\<rparr> \<in> set (fst (checkAlerts m sy cur prev)) \<and>
       timesFired (alert_id a) (fst (checkAlerts m sy cur prev)) = 1"
    if "(cur \<ge> price a \<and> prev < price a) \<or> (cur \<ge> price a \<and> \<not> triggered a)"
  proof -
    have f: "firesOn sy cur prev a" using that by (simp add: fires)
    with mem have "a\<lparr>triggered := True\<rparr> \<in> set (fst (checkAlerts m sy cur prev))"
      by (simp add: checkAlerts_fired image_iff) blast
    with f show ?thesis by (simp add: after afterCheck_def count)
  qed
  have part3: "alerts (snd (checkAlerts m sy cur prev)) ! i = a \<and>
       timesFired (alert_id a) (fst (checkAlerts m sy cur prev)) = 0"
    if "\<not> ((cur \<ge> price a \<and> prev < price a) \<or> (cur \<ge> price a \<and> \<not> triggered a))"
  proof -
    have "\<not> firesOn sy cur prev a" using that by (simp add: fires)
    then show ?thesis by (simp add: after afterCheck_def count)
  qed
  have part4: "map (timesFired (alert_id a)) (runTicks (c, m) sy [price a - 1, price a + 1]) = [0, 1] \<and>
       map (timesFired (alert_id a)) (runTicks (c, m) sy [price a + 1]) = [1]"
    if h: "\<not> triggered a \<and> sy \<noteq> [] \<and> mapGet (prices c) sy = None \<and> mapGet (callbacks c) sy = Some cb"
  proof -
    from h have ne: "sy \<noteq> []" and cb: "mapGet (callbacks c) sy = Some cb"
      and fresh: "mapGet (prices c) sy = None" and nt: "\<not> triggered a"
      by simp_all
    have f1: "\<not> firesOn sy (price a - 1) (price a - 1) a" by (simp add: fires)
    then have same: "afterCheck sy (price a - 1) (price a - 1) a = a" by (simp add: afterCheck_def)
    have f2: "firesOn sy (price a + 1) (price a - 1) a" by (simp add: fires)
    have f3: "firesOn sy (price a + 1) (price a + 1) a" using nt by (simp add: fires)
    have two: "map (timesFired (alert_id a)) (runTicks (c, m) sy [price a - 1, price a + 1]) = [0, 1]"
      using f1 f2
      by (simp only: runTicks_two [OF ne cb])
         (simp add: fresh count timesFired_second [OF assms(1) mem] same)
    have one: "map (timesFired (alert_id a)) (runTicks (c, m) sy [price a + 1]) = [1]"
      using f3
      by (simp only: runTicks_one [OF ne cb]) (simp add: fresh count)
    from two one show ?thesis by simp
  qed
  from part1 part2 part3 part4 show ?thesis by blast
qed

theorem checkAlerts_above_witness:
  "distinct (map alert_id (alerts (oneAlert ''above''))) \<and>
   0 < length (alerts (oneAlert ''above'')) \<and>
   alerts (oneAlert ''above'') ! 0 = watchR10 ''above'' \<and>
   condition (watchR10 ''above'') = ''above'' \<and>
   enabled (watchR10 ''above'') \<and>
   symbol (watchR10 ''above'') = ''R_10'' \<and>
   \<not> (triggered (watchR10 ''above'') \<and> \<not> repeat (watchR10 ''above'')) \<and>
   ''R_10'' \<noteq> [] \<and>
   mapGet (prices listening) ''R_10'' = None \<and>
   mapGet (callbacks listening) ''R_10'' = Some () \<and>
   timesFired 1 (fst (checkAlerts (oneAlert ''above'') ''R_10'' 101 99)) = 1 \<and>
   timesFired 1 (fst (checkAlerts (oneAlert ''above'') ''R_10'' 99 99)) = 0 \<and>
   map (timesFired 1) (runTicks (listening, oneAlert ''above'') ''R_10'' [99, 101]) = [0, 1] \<and>
   map (timesFired 1) (runTicks (listening, oneAlert ''above'') ''R_10'' [101]) = [1]"
proof -
  have h1: "distinct (map alert_id (alerts (oneAlert ''above'')))"
    by (simp add: oneAlert_def)
  have h2: "0 < length (alerts (oneAlert ''above''))"
    by (simp add: oneAlert_def)
  have h3: "alerts (oneAlert ''above'') ! 0 = watchR10 ''above''"
    by (simp add: oneAlert_def)
  have h4: "condition (watchR10 ''above'') = ''above''"
    and h5: "enabled (watchR10 ''above'')"
    and h6: "symbol (watchR10 ''above'') = ''R_10''"
    and h7: "\<not> (triggered (watchR10 ''above'') \<and> \<not> repeat (watchR10 ''above''))"
    by (simp_all add: watchR10_def)
  have g1: "''R_10'' \<noteq> []" by simp
  have g2: "mapGet (prices listening) ''R_10'' = None"
    by (simp add: listening_def newClient_def mapGet_def)
  have g3: "mapGet (callbacks listening) ''R_10'' = Some ()"
    by (simp add: listening_def mapGet_def)
  have v: "price (watchR10 ''above'') = 100" "alert_id (watchR10 ''above'') = 1"
    "\<not> triggered (watchR10 ''above'')"
    by (simp_all add: watchR10_def)
  note up = checkAlerts_above [where cur = 101 and prev = 99 and c = listening and cb = "()",
      OF h1 h2 h3 h4 h5 h6 h7]
  note flat = checkAlerts_above [where cur = 99 and prev = 99 and c = listening and cb = "()",
      OF h1 h2 h3 h4 h5 h6 h7]
  have c1: "timesFired 1 (fst (checkAlerts (oneAlert ''above'') ''R_10'' 101 99)) = 1"
    using up by (simp add: v)
  have c2: "timesFired 1 (fst (checkAlerts (oneAlert ''above'') ''R_10'' 99 99)) = 0"
    using flat by (simp add: v)
  have c3: "map (timesFired 1) (runTicks (listening, oneAlert ''above'') ''R_10'' [99, 101]) = [0, 1] \<and>
            map (timesFired 1) (runTicks (listening, oneAlert ''above'') ''R_10'' [101]) = [1]"
    using up g2 g3 by (simp add: v)
  from h1 h2 h3 h4 h5 h6 h7 g1 g2 g3 c1 c2 c3 show ?thesis
    by (intro conjI) simp_all
qed

text \<open>
  Claim C6, as the code has it. A rule with condition \<open>crosses\<close> (enabled, on the tick's symbol, not skipped)
  is returned if and only if the price went from below the target to at or above it, or
  from above the target to at or below it. There is no exemption for a first observation:
  a tick whose previous price equals its current price never fires it. For the ticks
  \<open>[T + 1, T + 1]\<close> on a subscribed symbol, the second tick never fires the rule, and the
  first fires it exactly when the price seen before was below \<open>T\<close>: the rule fires at most
  once, and not at all when \<open>T + 1\<close> is the first price observed.
\<close>

theorem checkAlerts_crosses:
  assumes "distinct (map alert_id (alerts m))"
    and "i < length (alerts m)" and "alerts m ! i = a"
    and "condition a = ''crosses''" and "enabled a" and "symbol a = sy"
    and "\<not> (triggered a \<and> \<not> repeat a)"
  shows
   "((\<exists>r \<in> set (fst (checkAlerts m sy cur prev)). alert_id r = alert_id a) \<longleftrightarrow>
       (cur \<ge> price a \<and> prev < price a) \<or> (cur \<le> price a \<and> prev > price a)) \<and>
    timesFired (alert_id a) (fst (checkAlerts m sy cur cur)) = 0 \<and>
    (sy \<noteq> [] \<and> mapGet (callbacks c) sy = Some cb \<longrightarrow>
       map (timesFired (alert_id a)) (runTicks (c, m) sy [price a + 1, price a + 1]) =
         [if (\<exists>d. mapGet (prices c) sy = Some d \<and> current d < price a) then 1 else 0, 0])"
proof -
  from assms(2,3) have mem: "a \<in> set (alerts m)" by auto
  have fires: "firesOn sy x y a \<longleftrightarrow>
                 (x \<ge> price a \<and> y < price a) \<or> (x \<le> price a \<and> y > price a)" for x y
    using assms(4-7) by (auto simp: firesOn_def switchTriggered_def)
  note count = timesFired_checkAlerts [OF assms(1) mem]
  have part1: "(\<exists>r \<in> set (fst (checkAlerts m sy cur prev)). alert_id r = alert_id a) \<longleftrightarrow>
       (cur \<ge> price a \<and> prev < price a) \<or> (cur \<le> price a \<and> prev > price a)"
    by (simp only: timesFired_pos_iff count fires [symmetric]) simp
  have part2: "timesFired (alert_id a) (fst (checkAlerts m sy cur cur)) = 0"
    by (simp add: count fires)
  have part3: "map (timesFired (alert_id a)) (runTicks (c, m) sy [price a + 1, price a + 1]) =
         [if (\<exists>d. mapGet (prices c) sy = Some d \<and> current d < price a) then 1 else 0, 0]"
    if h: "sy \<noteq> [] \<and> mapGet (callbacks c) sy = Some cb"
  proof -
    from h have ne: "sy \<noteq> []" and cb: "mapGet (callbacks c) sy = Some cb" by simp_all
    have again: "\<not> firesOn sy (price a + 1) (price a + 1) (afterCheck sy (price a + 1) y a)" for y
      using assms(4) by (simp add: firesOn_def switchTriggered_def afterCheck_def)
    show ?thesis
      unfolding runTicks_two [OF ne cb]
      by (cases "mapGet (prices c) sy")
         (simp_all add: count timesFired_second [OF assms(1) mem] again fires)
  qed
  from part1 part2 part3 show ?thesis by blast
qed

theorem checkAlerts_crosses_witness:
  "distinct (map alert_id (alerts (oneAlert ''crosses''))) \<and>
   0 < length (alerts (oneAlert ''crosses'')) \<and>
   alerts (oneAlert ''crosses'') ! 0 = watchR10 ''crosses'' \<and>
   condition (watchR10 ''crosses'') = ''crosses'' \<and>
   enabled (watchR10 ''crosses'') \<and>
   symbol (watchR10 ''crosses'') = ''R_10'' \<and>
   \<not> (triggered (watchR10 ''crosses'') \<and> \<not> repeat (watchR10 ''crosses'')) \<and>
   ''R_10'' \<noteq> [] \<and>
   mapGet (callbacks listening) ''R_10'' = Some () \<and>
   (\<exists>r \<in> set (fst (checkAlerts (oneAlert ''crosses'') ''R_10'' 99 101)). alert_id r = 1) \<and>
   timesFired 1 (fst (checkAlerts (oneAlert ''crosses'') ''R_10'' 101 101)) = 0 \<and>
   map (timesFired 1) (runTicks (listening, oneAlert ''crosses'') ''R_10'' [101, 101]) = [0, 0] \<and>
   map (timesFired 1)
     (runTicks (listening\<lparr>prices := [(''R_10'', \<lparr>current = 99, previous = 99\<rparr>)]\<rparr>,
        oneAlert ''crosses'') ''R_10'' [101, 101]) = [1, 0]"
proof -
  have h1: "distinct (map alert_id (alerts (oneAlert ''crosses'')))"
    by (simp add: oneAlert_def)
  have h2: "0 < length (alerts (oneAlert ''crosses''))"
    by (simp add: oneAlert_def)
  have h3: "alerts (oneAlert ''crosses'') ! 0 = watchR10 ''crosses''"
    by (simp add: oneAlert_def)
  have h4: "condition (watchR10 ''crosses'') = ''crosses''"
    and h5: "enabled (watchR10 ''crosses'')"
    and h6: "symbol (watchR10 ''crosses'') = ''R_10''"
    and h7: "\<not> (triggered (watchR10 ''crosses'') \<and> \<not> repeat (watchR10 ''crosses''))"
    by (simp_all add: watchR10_def)
  have g1: "''R_10'' \<noteq> []" by simp
  have g2: "mapGet (prices listening) ''R_10'' = None"
    by (simp add: listening_def newClient_def mapGet_def)
  have g3: "mapGet (callbacks listening) ''R_10'' = Some ()"
    by (simp add: listening_def mapGet_def)
  have g4: "mapGet (callbacks (listening\<lparr>prices := [(''R_10'', \<lparr>current = 99, previous = 99\<rparr>)]\<rparr>))
              ''R_10'' = Some ()"
    by (simp add: listening_def mapGet_def)
  have v: "price (watchR10 ''crosses'') = 100" "alert_id (watchR10 ''crosses'') = 1"
    by (simp_all add: watchR10_def)
  note down = checkAlerts_crosses [where cur = 99 and prev = 101 and c = listening and cb = "()",
      OF h1 h2 h3 h4 h5 h6 h7]
  note flat = checkAlerts_crosses [where cur = 101 and prev = 101 and c = listening and cb = "()",
      OF h1 h2 h3 h4 h5 h6 h7]
  note seen = checkAlerts_crosses [where cur = 101 and prev = 101
      and c = "listening\<lparr>prices := [(''R_10'', \<lparr>current = 99, previous = 99\<rparr>)]\<rparr>" and cb = "()",
      OF h1 h2 h3 h4 h5 h6 h7]
  have c1: "\<exists>r \<in> set (fst (checkAlerts (oneAlert ''crosses'') ''R_10'' 99 101)). alert_id r = 1"
    using down by (simp add: v)
  have c2: "timesFired 1 (fst (checkAlerts (oneAlert ''crosses'') ''R_10'' 101 101)) = 0"
    using flat by (simp add: v)
  have c3: "map (timesFired 1) (runTicks (listening, oneAlert ''crosses'') ''R_10'' [101, 101]) = [0, 0]"
    using flat g2 g3 by (simp add: v)
  have c4: "map (timesFired 1)
     (runTicks (listening\<lparr>prices := [(''R_10'', \<lparr>current = 99, previous = 99\<rparr>)]\<rparr>,
        oneAlert ''crosses'') ''R_10'' [101, 101]) = [1, 0]"
    using seen g4 by (simp add: v mapGet_def)
  from h1 h2 h3 h4 h5 h6 h7 g1 g3 c1 c2 c3 c4 show ?thesis
    by (intro conjI) simp_all
qed

text \<open>
  Claim C6 as written has the ticks \<open>[T + 1, T + 1]\<close> fire the rule once. For the rule on
  \<open>R_10\<close> with target 100, not repeating and not yet triggered, on a client that has
  seen no price for \<open>R_10\<close>, neither of the two ticks at 101 fires it: the first has
  its own price as previous price, and so has the second.
\<close>

theorem checkAlerts_crosses_counterexample:
  "condition (watchR10 ''crosses'') = ''crosses'' \<and>
   price (watchR10 ''crosses'') = 100 \<and>
   enabled (watchR10 ''crosses'') \<and>
   \<not> repeat (watchR10 ''crosses'') \<and>
   \<not> triggered (watchR10 ''crosses'') \<and>
   mapGet (prices listening) ''R_10'' = None \<and>
   mapGet (callbacks listening) ''R_10'' = Some () \<and>
   map (timesFired 1) (runTicks (listening, oneAlert ''crosses'') ''R_10'' [101, 101]) = [0, 0] \<and>
   sum_list (map (timesFired 1) (runTicks (listening, oneAlert ''crosses'') ''R_10'' [101, 101])) \<noteq> 1"
proof -
  have ne: "''R_10'' \<noteq> []" by simp
  have cb: "mapGet (callbacks listening) ''R_10'' = Some ()"
    by (simp add: listening_def mapGet_def)
  have fresh: "mapGet (prices listening) ''R_10'' = None"
    by (simp add: listening_def newClient_def mapGet_def)
  have run: "map (timesFired 1) (runTicks (listening, oneAlert ''crosses'') ''R_10'' [101, 101]) =
               [0, 0]"
    unfolding runTicks_two [OF ne cb]
    by (simp add: fresh checkAlerts_fired checkAlerts_alerts firesOn_def afterCheck_def
          switchTriggered_def timesFired_def oneAlert_def watchR10_def)
  have rule: "condition (watchR10 ''crosses'') = ''crosses''" "price (watchR10 ''crosses'') = 100"
    "enabled (watchR10 ''crosses'')" "\<not> repeat (watchR10 ''crosses'')"
    "\<not> triggered (watchR10 ''crosses'')"
    by (simp_all add: watchR10_def)
  from run have total: "sum_list (map (timesFired 1)
      (runTicks (listening, oneAlert ''crosses'') ''R_10'' [101, 101])) \<noteq> 1"
    by (simp only:) simp
  from rule fresh cb run total show ?thesis by (intro conjI)
qed

end
